theory Spec2Isabelle
  imports Main "HOL-Library.Word"
begin

section \<open>JavaScript values\<close>

text \<open>
  A JavaScript string is a sequence of UTF-16 code units. \<open>utf16\<close> writes an ASCII
  literal as such a sequence. \<open>None\<close> of an option type stands for \<^verbatim>\<open>undefined\<close>.
\<close>

type_synonym jsstring = "16 word list"

definition utf16 :: "string \<Rightarrow> jsstring" where
  "utf16 s = map of_char s"

definition QUOTE :: jsstring where
  "QUOTE = [0x22]"

definition SPACE :: "16 word" where
  "SPACE = 0x20"

datatype jsval = Undefined | Null | JBool bool | JNum int | JStr jsstring

definition of_undef :: "jsstring option \<Rightarrow> jsval" where
  "of_undef x = (case x of None \<Rightarrow> Undefined | Some s \<Rightarrow> JStr s)"

text \<open>
  \<^verbatim>\<open>String.prototype.trim\<close> removes the code units of WhiteSpace and LineTerminator
  (ECMAScript) from both ends.
\<close>

definition isWhiteSpace :: "16 word \<Rightarrow> bool" where
  "isWhiteSpace c \<longleftrightarrow>
     c \<in> {0x09, 0x0A, 0x0B, 0x0C, 0x0D, 0x20, 0xA0, 0x1680, 0x2028, 0x2029, 0x202F, 0x205F,
          0x3000, 0xFEFF}
     \<or> (0x2000 \<le> c \<and> c \<le> 0x200A)"

definition js_trim :: "jsstring \<Rightarrow> jsstring" where
  "js_trim s = rev (dropWhile isWhiteSpace (rev (dropWhile isWhiteSpace s)))"

text \<open>\<^verbatim>\<open>s.split(sep)\<close> for a separator of one code unit; \<^verbatim>\<open>"".split(" ")\<close> is \<^verbatim>\<open>[""]\<close>.\<close>

fun js_split :: "16 word \<Rightarrow> jsstring \<Rightarrow> jsstring list" where
  "js_split sep [] = [[]]"
| "js_split sep (c # cs) =
     (if c = sep then [] # js_split sep cs
      else (case js_split sep cs of
              [] \<Rightarrow> [[c]]
            | p # ps \<Rightarrow> (c # p) # ps))"

section \<open>index.ts: the record transformer\<close>

text \<open>The type \<^verbatim>\<open>User\<close> inferred from \<^verbatim>\<open>userSchema\<close>.\<close>

record User =
  userId :: jsstring
  email :: jsstring
  name :: "jsstring option"
  location :: "jsstring option"
  agreedTerms :: bool

definition splitName :: "jsstring option \<Rightarrow> jsstring option \<times> jsstring option" where
  "splitName nm =
     (if nm = Some QUOTE then (None, None)
      else
        let trimmed = map_option js_trim nm;
            nameParts = (case trimmed of None \<Rightarrow> [] | Some t \<Rightarrow> js_split SPACE t)
        in if length nameParts = 2 then (Some (nameParts ! 0), Some (nameParts ! 1))
           else (trimmed, None))"


text \<open>
  The objects exchanged with the identity platform. \<^verbatim>\<open>publicMetadata\<close> is a bag of
  JSON values; only the keys the engine reads or writes are kept.
\<close>

record Metadata =
  md_agreedTerms :: bool
  md_emailConsent :: bool
  md_org :: "jsstring option"

record CreateParams =
  c_externalId :: jsstring
  c_emailAddress :: "jsstring list"
  c_firstName :: "jsstring option"
  c_lastName :: "jsstring option"
  c_skipPasswordRequirement :: bool
  c_publicMetadata :: Metadata

record UpdateParams =
  u_externalId :: jsstring
  u_firstName :: "jsstring option"
  u_lastName :: "jsstring option"
  u_publicMetadata :: Metadata
  u_createOrganizationEnabled :: bool
  u_deleteSelfEnabled :: bool

record ClerkUser =
  cu_id :: jsstring
  cu_externalId :: jsval
  cu_firstName :: jsval
  cu_lastName :: jsval
  cu_publicMetadata_agreedTerms :: jsval
  cu_publicMetadata_org :: jsval
  cu_createOrganizationEnabled :: bool

text \<open>
  A thrown value: its \<^verbatim>\<open>status\<close> property (\<open>Undefined\<close> when it has none, as for a
  \<^verbatim>\<open>ZodError\<close>) and the rest of it, which the engine never inspects.
\<close>

record js_error =
  status :: jsval
  detail :: jsstring

definition zodError :: js_error where
  "zodError = \<lparr>status = Undefined, detail = utf16 ''ZodError''\<rparr>"

text \<open>
  An element of the parsed input file, before validation. Each property holds any JSON
  value, or \<open>Undefined\<close> when the key is missing.
\<close>

record RawUser =
  raw_userId :: jsval
  raw_email :: jsval
  raw_name :: jsval
  raw_location :: jsval
  raw_agreedTerms :: jsval

text \<open>
  \<^verbatim>\<open>userSchema.safeParse\<close>. The shape of an email address is checked by the schema
  library; that check is the parameter \<open>isEmail\<close>.
\<close>

fun zString :: "jsval \<Rightarrow> jsstring option" where
  "zString (JStr s) = Some s"
| "zString _ = None"

fun zStringOptional :: "jsval \<Rightarrow> jsstring option option" where
  "zStringOptional Undefined = Some None"
| "zStringOptional (JStr s) = Some (Some s)"
| "zStringOptional _ = None"

fun zBoolean :: "jsval \<Rightarrow> bool option" where
  "zBoolean (JBool b) = Some b"
| "zBoolean _ = None"

definition safeParse :: "(jsstring \<Rightarrow> bool) \<Rightarrow> RawUser \<Rightarrow> User option" where
  "safeParse isEmail r =
     (case zString (raw_userId r) of None \<Rightarrow> None | Some uid \<Rightarrow>
      case zString (raw_email r) of None \<Rightarrow> None | Some em \<Rightarrow>
      if \<not> isEmail em then None else
      case zStringOptional (raw_name r) of None \<Rightarrow> None | Some n \<Rightarrow>
      case zStringOptional (raw_location r) of None \<Rightarrow> None | Some l \<Rightarrow>
      case zBoolean (raw_agreedTerms r) of None \<Rightarrow> None | Some a \<Rightarrow>
      Some \<lparr>userId = uid, email = em, name = n, location = l, agreedTerms = a\<rparr>)"

section \<open>index.ts: configuration\<close>

text \<open>
  \<^verbatim>\<open>parseInt(string)\<close> without a radix: leading white space is skipped, a sign is read,
  a prefix \<^verbatim>\<open>0x\<close> selects radix 16, and the longest prefix of digits is the value.
  The result is a Number, a double: it is the integer read as long as that is at most
  \<open>2 ^ 53\<close> in magnitude. Beyond that the Number is a rounded value, which is left
  out of the model as \<open>JsInexact\<close>.
\<close>

datatype parsed_number = JsNaN | JsInt int | JsInexact

definition digitValue :: "16 word \<Rightarrow> nat option" where
  "digitValue c =
     (if 0x30 \<le> c \<and> c \<le> 0x39 then Some (unat c - 0x30)
      else if 0x61 \<le> c \<and> c \<le> 0x7A then Some (unat c - 0x61 + 10)
      else if 0x41 \<le> c \<and> c \<le> 0x5A then Some (unat c - 0x41 + 10)
      else None)"

definition isRadixDigit :: "nat \<Rightarrow> 16 word \<Rightarrow> bool" where
  "isRadixDigit R c = (case digitValue c of None \<Rightarrow> False | Some d \<Rightarrow> d < R)"

definition parseInt :: "jsstring \<Rightarrow> parsed_number" where
  "parseInt string =
     (let S = dropWhile isWhiteSpace string;
          sign = (if S \<noteq> [] \<and> hd S = 0x2D then - 1 else 1);
          S1 = (if S \<noteq> [] \<and> (hd S = 0x2B \<or> hd S = 0x2D) then tl S else S);
          stripPrefix = (take 2 S1 = [0x30, 0x78] \<or> take 2 S1 = [0x30, 0x58]);
          R = (if stripPrefix then 16 else 10);
          S2 = (if stripPrefix then drop 2 S1 else S1);
          Z = takeWhile (isRadixDigit R) S2
      in if Z = [] then JsNaN
         else
           let mathInt = foldl (\<lambda>a c. a * R + the (digitValue c)) 0 Z
           in if mathInt \<le> 2 ^ 53 then JsInt (sign * int mathInt) else JsInexact)"

record Config =
  DELAY :: "int option"
  RETRY_DELAY :: "int option"
  OFFSET :: "int option"

text \<open>
  \<^verbatim>\<open>process.env.X ?? `default`\<close>: the default is the text of the template literal.
  A setting is \<open>None\<close> for \<^verbatim>\<open>NaN\<close>; a configuration with a setting beyond the exact
  range is outside the model.
\<close>

fun setting :: "parsed_number \<Rightarrow> int option option" where
  "setting JsNaN = Some None"
| "setting (JsInt n) = Some (Some n)"
| "setting JsInexact = None"

definition load_config :: "(string \<rightharpoonup> jsstring) \<Rightarrow> Config option" where
  "load_config env =
     (case setting (parseInt (case env ''DELAY_MS'' of None \<Rightarrow> utf16 ''1_000'' | Some v \<Rightarrow> v)) of
        None \<Rightarrow> None
      | Some delay \<Rightarrow>
     (case setting (parseInt (case env ''RETRY_DELAY_MS'' of None \<Rightarrow> utf16 ''10_000'' | Some v \<Rightarrow> v)) of
        None \<Rightarrow> None
      | Some retry_delay \<Rightarrow>
     (case setting (parseInt (case env ''OFFSET'' of None \<Rightarrow> utf16 ''0'' | Some v \<Rightarrow> v)) of
        None \<Rightarrow> None
      | Some off \<Rightarrow> Some \<lparr>DELAY = delay, RETRY_DELAY = retry_delay, OFFSET = off\<rparr>)))"

section \<open>index.ts: the reconciliation engine\<close>

text \<open>
  The effects of a run, in order: the two sleeps and the three calls to the platform.
  The audit log file is kept by itself, as the list of the entries appended to it. The
  progress spinner is left out, and so are the checks of the secret key, which run
  before \<open>main\<close>.
\<close>

record AuditEntry =
  ae_userId :: jsval
  ae_error :: js_error

datatype event =
    is_Cooldown: Cooldown "int option"
  | is_RateLimitCooldown: RateLimitCooldown "int option"
  | is_CreateUser: CreateUser CreateParams
  | is_GetUserList: GetUserList jsstring
  | is_UpdateUser: UpdateUser jsstring UpdateParams

record state =
  migrated :: nat
  updated :: nat
  log :: "AuditEntry list"
  trace :: "event list"

definition initial :: state where
  "initial = \<lparr>migrated = 0, updated = 0, log = [], trace = []\<rparr>"

text \<open>
  The platform is a collaborator outside the repository. Its answers are parameters: the
  outcome of the \<open>k\<close>-th call of each operation in the run (\<open>Inl\<close> a rejection, \<open>Inr\<close>
  the resolved value). Every behaviour of a real service along one run is such a family.
\<close>

record Services =
  isEmail :: "jsstring \<Rightarrow> bool"
  createUser_result :: "nat \<Rightarrow> js_error + ClerkUser"
  getUserList_result :: "nat \<Rightarrow> js_error + ClerkUser list"
  updateUser_result :: "nat \<Rightarrow> js_error + ClerkUser"

definition calls :: "(event \<Rightarrow> bool) \<Rightarrow> state \<Rightarrow> nat" where
  "calls kind s = length (filter kind (trace s))"

definition emit :: "event \<Rightarrow> state \<Rightarrow> state" where
  "emit e s = s\<lparr>trace := trace s @ [e]\<rparr>"

definition createUser_params :: "User \<Rightarrow> CreateParams" where
  "createUser_params userData =
     (let (firstName, lastName) = splitName (name userData);
          org = location userData;
          org = (if org = Some QUOTE then None else org)
      in \<lparr>c_externalId = userId userData,
          c_emailAddress = [email userData],
          c_firstName = firstName,
          c_lastName = lastName,
          c_skipPasswordRequirement = True,
          c_publicMetadata =
            \<lparr>md_agreedTerms = agreedTerms userData, md_emailConsent = False, md_org = org\<rparr>\<rparr>)"

definition createUser :: "Services \<Rightarrow> User \<Rightarrow> state \<Rightarrow> (js_error + ClerkUser) \<times> state" where
  "createUser api userData s =
     (createUser_result api (calls is_CreateUser s),
      emit (CreateUser (createUser_params userData)) s)"

text \<open>The condition of the \<^verbatim>\<open>if\<close> in \<^verbatim>\<open>updateUser\<close>; \<^verbatim>\<open>!==\<close> is strict inequality.\<close>

definition fields_differ :: "ClerkUser \<Rightarrow> User \<Rightarrow> bool" where
  "fields_differ existing userData =
     (let (firstName, lastName) = splitName (name userData);
          org = location userData;
          org = (if org = Some QUOTE then None else org)
      in cu_externalId existing \<noteq> JStr (userId userData) \<or>
         cu_firstName existing \<noteq> of_undef firstName \<or>
         cu_lastName existing \<noteq> of_undef lastName \<or>
         cu_publicMetadata_agreedTerms existing \<noteq> JBool (agreedTerms userData) \<or>
         cu_publicMetadata_org existing \<noteq> of_undef org \<or>
         cu_createOrganizationEnabled existing)"

definition updateUser_params :: "User \<Rightarrow> UpdateParams" where
  "updateUser_params userData =
     (let (firstName, lastName) = splitName (name userData);
          org = location userData;
          org = (if org = Some QUOTE then None else org)
      in \<lparr>u_externalId = userId userData,
          u_firstName = firstName,
          u_lastName = lastName,
          u_publicMetadata =
            \<lparr>md_agreedTerms = agreedTerms userData, md_emailConsent = False, md_org = org\<rparr>,
          u_createOrganizationEnabled = False,
          u_deleteSelfEnabled = False\<rparr>)"

text \<open>
  \<^verbatim>\<open>updateUser\<close> resolves to the updated entity, or to \<^verbatim>\<open>undefined\<close> (\<open>None\<close>) when the
  lookup finds nothing or no field differs; a rejected lookup or update rejects it.
\<close>

definition updateUser :: "Services \<Rightarrow> User \<Rightarrow> state \<Rightarrow> (js_error + ClerkUser option) \<times> state" where
  "updateUser api userData s =
     (let s1 = emit (GetUserList (email userData)) s in
      case getUserList_result api (calls is_GetUserList s) of
        Inl e \<Rightarrow> (Inl e, s1)
      | Inr response_data \<Rightarrow>
          (case response_data of
             [] \<Rightarrow> (Inr None, s1)
           | existing # _ \<Rightarrow>
               if fields_differ existing userData then
                 (let s2 = emit (UpdateUser (cu_id existing) (updateUser_params userData)) s1 in
                  case updateUser_result api (calls is_UpdateUser s1) of
                    Inl e \<Rightarrow> (Inl e, s2)
                  | Inr u \<Rightarrow> (Inr (Some u), s2))
               else (Inr None, s1)))"

definition appendLog :: "AuditEntry \<Rightarrow> state \<Rightarrow> state" where
  "appendLog payload s = s\<lparr>log := log s @ [payload]\<rparr>"

definition cooldown :: "Config \<Rightarrow> state \<Rightarrow> state" where
  "cooldown cfg s = emit (Cooldown (DELAY cfg)) s"

definition rateLimitCooldown :: "Config \<Rightarrow> state \<Rightarrow> state" where
  "rateLimitCooldown cfg s = emit (RateLimitCooldown (RETRY_DELAY cfg)) s"

text \<open>
  The \<^verbatim>\<open>try\<close> block of \<^verbatim>\<open>processUserToClerk\<close>: validation, then the create call. An
  invalid record throws the schema's error before any call.
\<close>

definition try_create :: "Services \<Rightarrow> RawUser \<Rightarrow> state \<Rightarrow> (js_error + ClerkUser) \<times> state" where
  "try_create api userData s =
     (case safeParse (isEmail api) userData of
        None \<Rightarrow> (Inl zodError, s)
      | Some parsed \<Rightarrow> createUser api parsed s)"

datatype result = Returned state | Thrown js_error state

text \<open>
  \<^verbatim>\<open>processUserToClerk\<close> calls itself after a rate-limit signal, without a bound: a run
  that never returns is \<open>None\<close>. An error raised inside the \<^verbatim>\<open>catch\<close> block (a rejected
  lookup or update) leaves the function as an exception.
\<close>

partial_function (option) processUserToClerk ::
  "Config \<Rightarrow> Services \<Rightarrow> RawUser \<Rightarrow> state \<Rightarrow> result option" where
  "processUserToClerk cfg api userData s =
     (case try_create api userData s of
        (Inr _, s1) \<Rightarrow> Some (Returned (s1\<lparr>migrated := migrated s1 + 1\<rparr>))
      | (Inl error, s1) \<Rightarrow>
          if status error = JNum 422 then
            (case safeParse (isEmail api) userData of
               None \<Rightarrow> Some (Returned s1)
             | Some parsed \<Rightarrow>
                 (case updateUser api parsed s1 of
                    (Inl e, s2) \<Rightarrow> Some (Thrown e s2)
                  | (Inr None, s2) \<Rightarrow> Some (Returned s2)
                  | (Inr (Some up), s2) \<Rightarrow> Some (Returned (s2\<lparr>updated := updated s2 + 1\<rparr>))))
          else if status error = JNum 429 then
            processUserToClerk cfg api userData (rateLimitCooldown cfg s1)
          else
            Some (Returned
              (appendLog \<lparr>ae_userId = raw_userId userData, ae_error = error\<rparr> s1)))"

text \<open>The \<^verbatim>\<open>for\<close> loop of \<^verbatim>\<open>main\<close>; an exception ends the run.\<close>

fun main_loop :: "Config \<Rightarrow> Services \<Rightarrow> RawUser list \<Rightarrow> state \<Rightarrow> result option" where
  "main_loop cfg api [] s = Some (Returned s)"
| "main_loop cfg api (userData # rest) s =
     (case processUserToClerk cfg api userData (cooldown cfg s) of
        None \<Rightarrow> None
      | Some (Thrown e s') \<Rightarrow> Some (Thrown e s')
      | Some (Returned s') \<Rightarrow> main_loop cfg api rest s')"

text \<open>\<^verbatim>\<open>Array.prototype.slice(start)\<close>: \<^verbatim>\<open>NaN\<close> is 0, a negative start counts from the end.\<close>

definition js_slice :: "int option \<Rightarrow> 'a list \<Rightarrow> 'a list" where
  "js_slice start xs =
     (case start of
        None \<Rightarrow> xs
      | Some k \<Rightarrow> if k < 0 then drop (nat (max (int (length xs) + k) 0)) xs
                  else drop (nat k) xs)"

definition main :: "Config \<Rightarrow> Services \<Rightarrow> RawUser list \<Rightarrow> result option" where
  "main cfg api parsedUserData = main_loop cfg api (js_slice (OFFSET cfg) parsedUserData) initial"

section \<open>The backup scripts: paginated traversal\<close>

text \<open>
  A list request and its answer, without the sort order and the organization identifier,
  which the loops pass on unchanged. The first request of the older scripts carries no
  offset. As for the engine, the answers of the platform are a parameter: the outcome of
  the \<open>k\<close>-th list request of a traversal, given its parameters.
\<close>

record ListParams =
  offset :: "nat option"
  limit :: nat

record 'a Page =
  data :: "'a list"
  totalCount :: nat

type_synonym 'a list_api = "nat \<Rightarrow> ListParams \<Rightarrow> js_error + 'a Page"

definition ceil_div :: "nat \<Rightarrow> nat \<Rightarrow> nat" where
  "ceil_div T P = (T + P - 1) div P"

text \<open>
  backup.ts: the \<^verbatim>\<open>do ... while (hasMore)\<close> loop, the same text for users, organizations
  and the memberships of one organization. It returns the accumulated items and the
  requests issued; a rejected request ends the run; a loop that never ends is \<open>None\<close>.
\<close>

partial_function (option) do_while_hasMore ::
  "'a list_api \<Rightarrow> nat \<Rightarrow> nat \<Rightarrow> 'a list \<Rightarrow> ListParams list
     \<Rightarrow> ((js_error + 'a list) \<times> ListParams list) option" where
  "do_while_hasMore api lim off items reqs =
     (let params = \<lparr>offset = Some off, limit = lim\<rparr>;
          reqs' = reqs @ [params]
      in case api (length reqs) params of
           Inl e \<Rightarrow> Some (Inl e, reqs')
         | Inr response \<Rightarrow>
             (let items' = items @ data response;
                  hasMore = totalCount response > length items'
              in if hasMore then do_while_hasMore api lim (off + lim) items' reqs'
                 else Some (Inr items', reqs')))"

definition backup_retrieve_users ::
  "'a list_api \<Rightarrow> ((js_error + 'a list) \<times> ListParams list) option" where
  "backup_retrieve_users api = do_while_hasMore api 500 0 [] []"

definition backup_retrieve_orgs ::
  "'a list_api \<Rightarrow> ((js_error + 'a list) \<times> ListParams list) option" where
  "backup_retrieve_orgs api = do_while_hasMore api 500 0 [] []"

definition backup_retrieve_memberships ::
  "'a list_api \<Rightarrow> ((js_error + 'a list) \<times> ListParams list) option" where
  "backup_retrieve_memberships api = do_while_hasMore api 500 0 [] []"

text \<open>
  The older scripts: a first request, then \<^verbatim>\<open>while (hasMore)\<close>. \<open>total'\<close> is the
  variable the loop body compares with the accumulated count.
\<close>

partial_function (option) while_hasMore ::
  "'a list_api \<Rightarrow> nat \<Rightarrow> nat \<Rightarrow> nat \<Rightarrow> 'a list \<Rightarrow> bool \<Rightarrow> ListParams list
     \<Rightarrow> ((js_error + 'a list) \<times> ListParams list) option" where
  "while_hasMore api lim total' off items hasMore reqs =
     (if hasMore then
        (let off' = off + lim;
             params = \<lparr>offset = Some off', limit = lim\<rparr>;
             reqs' = reqs @ [params]
         in case api (length reqs) params of
              Inl e \<Rightarrow> Some (Inl e, reqs')
            | Inr nextBatch \<Rightarrow>
                (let items' = items @ data nextBatch
                 in while_hasMore api lim total' off' items' (total' > length items') reqs'))
      else Some (Inr items, reqs))"

text \<open>The user backup script (the unnamed source file): \<^verbatim>\<open>total\<close> is read once.\<close>

definition retrieve_users_limit ::
  "'a list_api \<Rightarrow> nat \<Rightarrow> ((js_error + 'a list) \<times> ListParams list) option" where
  "retrieve_users_limit api lim =
     (let params = \<lparr>offset = None, limit = lim\<rparr>
      in case api 0 params of
           Inl e \<Rightarrow> Some (Inl e, [params])
         | Inr response \<Rightarrow>
             (let users = data response;
                  total' = totalCount response;
                  hasMoreUsers = total' > length users
              in while_hasMore api lim total' 0 users hasMoreUsers [params]))"

definition user_backup_retrieve_users ::
  "'a list_api \<Rightarrow> ((js_error + 'a list) \<times> ListParams list) option" where
  "user_backup_retrieve_users api = retrieve_users_limit api 500"

text \<open>
  The backup script kept in orgs\_get\_ids.ts: users as above, then organizations. The
  first test of the organization loop reads \<^verbatim>\<open>totalOrgs\<close>, the test in its body reads
  \<^verbatim>\<open>totalUsers\<close>.
\<close>

definition orgs_get_ids_retrieve_orgs ::
  "'a list_api \<Rightarrow> nat \<Rightarrow> nat \<Rightarrow> ((js_error + 'a list) \<times> ListParams list) option" where
  "orgs_get_ids_retrieve_orgs api lim totalUsers =
     (let params = \<lparr>offset = None, limit = lim\<rparr>
      in case api 0 params of
           Inl e \<Rightarrow> Some (Inl e, [params])
         | Inr orgResponse \<Rightarrow>
             (let orgs = data orgResponse;
                  totalOrgs = totalCount orgResponse;
                  hasMoreOrgs = totalOrgs > length orgs
              in while_hasMore api lim totalUsers 0 orgs hasMoreOrgs [params]))"

definition orgs_get_ids_main ::
  "'u list_api \<Rightarrow> 'o list_api \<Rightarrow> (js_error + 'u list \<times> 'o list) option" where
  "orgs_get_ids_main userApi orgApi =
     (let lim = 500;
          userParams = \<lparr>offset = None, limit = lim\<rparr>
      in case userApi 0 userParams of
           Inl e \<Rightarrow> Some (Inl e)
         | Inr userResponse \<Rightarrow>
             (let users = data userResponse;
                  totalUsers = totalCount userResponse;
                  hasMoreUsers = totalUsers > length users
              in case while_hasMore userApi lim totalUsers 0 users hasMoreUsers [userParams] of
                   None \<Rightarrow> None
                 | Some (Inl e, _) \<Rightarrow> Some (Inl e)
                 | Some (Inr users', _) \<Rightarrow>
                     (case orgs_get_ids_retrieve_orgs orgApi lim totalUsers of
                        None \<Rightarrow> None
                      | Some (Inl e, _) \<Rightarrow> Some (Inl e)
                      | Some (Inr orgs, _) \<Rightarrow> Some (Inr (users', orgs)))))"

text \<open>
  A service that holds a fixed collection and answers each request with the slice asked
  for and the size of the collection.
\<close>

definition paged :: "'a list \<Rightarrow> 'a list_api" where
  "paged xs k params =
     Inr \<lparr>data = take (limit params) (drop (case offset params of None \<Rightarrow> 0 | Some off \<Rightarrow> off) xs),
          totalCount = length xs\<rparr>"

text \<open>
  The assumptions of a stable traversal: the \<open>k\<close>-th request is the one expected, it is
  answered, the total reported is \<open>T\<close> every time, and the page holds \<open>P\<close> items as long
  as that many remain, the rest otherwise. The newer script sends offset \<open>k * P\<close> at
  every request, the older ones send no offset at the first.
\<close>

definition request_at :: "nat \<Rightarrow> nat \<Rightarrow> ListParams" where
  "request_at P k = \<lparr>offset = Some (k * P), limit = P\<rparr>"

definition request_at_old :: "nat \<Rightarrow> nat \<Rightarrow> ListParams" where
  "request_at_old P k = \<lparr>offset = (if k = 0 then None else Some (k * P)), limit = P\<rparr>"

definition serves :: "'a list_api \<Rightarrow> (nat \<Rightarrow> ListParams) \<Rightarrow> nat \<Rightarrow> nat \<Rightarrow> bool" where
  "serves api request P T \<longleftrightarrow>
     (\<forall>k < max 1 (ceil_div T P). \<exists>pg. api k (request k) = Inr pg
         \<and> totalCount pg = T \<and> length (data pg) = min P (T - k * P))"

section \<open>Delays before create attempts\<close>

text \<open>
  Two readings of a run of events. \<open>attempts_paced d prev t\<close>: every create call in \<open>t\<close>
  comes right after a pacing delay of \<open>d\<close> (\<open>prev\<close> is the event before \<open>t\<close>).
  \<open>attempts_delayed d r prev fresh t\<close>: every pacing delay lasts \<open>d\<close>, the first create
  call after a pacing delay comes right after it, and every further create call before
  the next pacing delay comes right after a rate-limit cooldown of \<open>r\<close> (\<open>fresh\<close> tells
  that no create call was made since the last pacing delay).
\<close>

fun state_of :: "result \<Rightarrow> state" where
  "state_of (Returned s) = s"
| "state_of (Thrown e s) = s"

fun attempts_paced :: "int option \<Rightarrow> event option \<Rightarrow> event list \<Rightarrow> bool" where
  "attempts_paced d prev [] = True"
| "attempts_paced d prev (e # es) =
     ((is_CreateUser e \<longrightarrow> prev = Some (Cooldown d)) \<and> attempts_paced d (Some e) es)"

fun attempts_delayed ::
  "int option \<Rightarrow> int option \<Rightarrow> event option \<Rightarrow> bool \<Rightarrow> event list \<Rightarrow> bool" where
  "attempts_delayed d r prev fresh [] = True"
| "attempts_delayed d r prev fresh (e # es) =
     (case e of
        Cooldown d' \<Rightarrow> d' = d \<and> attempts_delayed d r (Some e) True es
      | CreateUser p \<Rightarrow>
          prev = Some (if fresh then Cooldown d else RateLimitCooldown r)
          \<and> attempts_delayed d r (Some e) False es
      | _ \<Rightarrow> attempts_delayed d r (Some e) fresh es)"

text \<open>What one call of \<open>processUserToClerk\<close> adds to the trace.\<close>

definition shape :: "Config \<Rightarrow> state \<Rightarrow> result \<Rightarrow> bool" where
  "shape cfg s r \<longleftrightarrow>
     (\<exists>t. trace (state_of r) = trace s @ t
        \<and> (\<forall>x \<in> set t. \<not> is_Cooldown x)
        \<and> attempts_delayed (DELAY cfg) (RETRY_DELAY cfg) (Some (Cooldown (DELAY cfg))) True t
        \<and> attempts_delayed (DELAY cfg) (RETRY_DELAY cfg) (Some (RateLimitCooldown (RETRY_DELAY cfg))) False t)"

section \<open>Agreement of an entity with a record\<close>

text \<open>
  Following the words of the specification, not the code: a destination entity agrees
  with a source record on a compared field when both hold the same value or neither
  holds one. A record holds no name or hint as \<^verbatim>\<open>undefined\<close>; an entity may report a
  missing one as \<^verbatim>\<open>null\<close> as well, which the backup script reads as no value
  (\<^verbatim>\<open>u.lastName || undefined\<close>). The permission to create organizations agrees when
  it is off, the state every update sets.
\<close>

definition same_text :: "jsval \<Rightarrow> jsstring option \<Rightarrow> bool" where
  "same_text v x = (case x of None \<Rightarrow> v = Null \<or> v = Undefined | Some t \<Rightarrow> v = JStr t)"

definition spec_agrees :: "ClerkUser \<Rightarrow> User \<Rightarrow> bool" where
  "spec_agrees existing u \<longleftrightarrow>
     cu_externalId existing = JStr (userId u)
     \<and> same_text (cu_firstName existing) (fst (splitName (name u)))
     \<and> same_text (cu_lastName existing) (snd (splitName (name u)))
     \<and> cu_publicMetadata_agreedTerms existing = JBool (agreedTerms u)
     \<and> same_text (cu_publicMetadata_org existing)
           (if location u = Some QUOTE then None else location u)
     \<and> \<not> cu_createOrganizationEnabled existing"

section \<open>Sample inputs\<close>

text \<open>The record of the scenarios of the specification, and the entity it is migrated to.\<close>

definition sample_raw :: RawUser where
  "sample_raw =
     \<lparr>raw_userId = JStr (utf16 ''u1''), raw_email = JStr (utf16 ''a@x.com''),
      raw_name = JStr (utf16 ''Jane Doe''), raw_location = Undefined,
      raw_agreedTerms = JBool True\<rparr>"

definition sample_user :: User where
  "sample_user =
     \<lparr>userId = utf16 ''u1'', email = utf16 ''a@x.com'', name = Some (utf16 ''Jane Doe''),
      location = None, agreedTerms = True\<rparr>"

definition sample_create :: CreateParams where
  "sample_create =
     \<lparr>c_externalId = utf16 ''u1'', c_emailAddress = [utf16 ''a@x.com''],
      c_firstName = Some (utf16 ''Jane''), c_lastName = Some (utf16 ''Doe''),
      c_skipPasswordRequirement = True,
      c_publicMetadata = \<lparr>md_agreedTerms = True, md_emailConsent = False, md_org = None\<rparr>\<rparr>"


definition sample_entity :: ClerkUser where
  "sample_entity =
     \<lparr>cu_id = utf16 ''user_1'', cu_externalId = JStr (utf16 ''u1''),
      cu_firstName = JStr (utf16 ''Jane''), cu_lastName = JStr (utf16 ''Doe''),
      cu_publicMetadata_agreedTerms = JBool True, cu_publicMetadata_org = Undefined,
      cu_createOrganizationEnabled = False\<rparr>"


definition http_error :: "int \<Rightarrow> js_error" where
  "http_error code = \<lparr>status = JNum code, detail = []\<rparr>"

text \<open>
  A platform that accepts every email shape, answers the create calls as given, finds
  the given entities at every lookup and accepts every update.
\<close>

definition sample_api :: "(nat \<Rightarrow> js_error + ClerkUser) \<Rightarrow> ClerkUser list \<Rightarrow> Services" where
  "sample_api creates found =
     \<lparr>isEmail = (\<lambda>_. True),
      createUser_result = creates,
      getUserList_result = (\<lambda>_. Inr found),
      updateUser_result = (\<lambda>_. Inr sample_entity)\<rparr>"

definition sample_cfg :: Config where
  "sample_cfg = \<lparr>DELAY = Some 1000, RETRY_DELAY = Some 10000, OFFSET = Some 0\<rparr>"


text \<open>
  A record with a name of one token, and the entity it was migrated to: the platform
  stores no last name and reports it as \<^verbatim>\<open>null\<close>.
\<close>

definition mononym_raw :: RawUser where
  "mononym_raw =
     \<lparr>raw_userId = JStr (utf16 ''u2''), raw_email = JStr (utf16 ''ada@x.com''),
      raw_name = JStr (utf16 ''Ada''), raw_location = Undefined,
      raw_agreedTerms = JBool True\<rparr>"

definition mononym_user :: User where
  "mononym_user =
     \<lparr>userId = utf16 ''u2'', email = utf16 ''ada@x.com'', name = Some (utf16 ''Ada''),
      location = None, agreedTerms = True\<rparr>"

definition mononym_create :: CreateParams where
  "mononym_create =
     \<lparr>c_externalId = utf16 ''u2'', c_emailAddress = [utf16 ''ada@x.com''],
      c_firstName = Some (utf16 ''Ada''), c_lastName = None,
      c_skipPasswordRequirement = True,
      c_publicMetadata = \<lparr>md_agreedTerms = True, md_emailConsent = False, md_org = None\<rparr>\<rparr>"

definition mononym_update :: UpdateParams where
  "mononym_update =
     \<lparr>u_externalId = utf16 ''u2'',
      u_firstName = Some (utf16 ''Ada''), u_lastName = None,
      u_publicMetadata = \<lparr>md_agreedTerms = True, md_emailConsent = False, md_org = None\<rparr>,
      u_createOrganizationEnabled = False, u_deleteSelfEnabled = False\<rparr>"

definition mononym_entity :: ClerkUser where
  "mononym_entity =
     \<lparr>cu_id = utf16 ''user_2'', cu_externalId = JStr (utf16 ''u2''),
      cu_firstName = JStr (utf16 ''Ada''), cu_lastName = Null,
      cu_publicMetadata_agreedTerms = JBool True, cu_publicMetadata_org = Undefined,
      cu_createOrganizationEnabled = False\<rparr>"

section \<open>Properties of trimming and splitting\<close>

lemma js_split_not_Nil: "js_split sep s \<noteq> []"
  by (induction s) (auto split: list.splits)

lemma length_js_split: "length (js_split sep s) = Suc (count_list s sep)"
proof (induction s)
  case Nil
  show ?case by simp
next
  case (Cons c cs)
  obtain p ps where "js_split sep cs = p # ps"
    using js_split_not_Nil [of sep cs] by (cases "js_split sep cs") auto
  with Cons show ?case by auto
qed

lemma js_split_no_sep: "sep \<notin> set s \<Longrightarrow> js_split sep s = [s]"
  by (induction s) auto

lemma js_split_append:
  "sep \<notin> set a \<Longrightarrow> js_split sep (a @ sep # b) = a # js_split sep b"
  by (induction a) auto

lemma js_split_two:
  assumes "sep \<notin> set a" and "sep \<notin> set b"
  shows "js_split sep (a @ sep # b) = [a, b]"
  using assms by (simp add: js_split_append js_split_no_sep)

lemma js_trim_decompose:
  "\<exists>l r. s = l @ js_trim s @ r \<and> (\<forall>c \<in> set l. isWhiteSpace c) \<and> (\<forall>c \<in> set r. isWhiteSpace c)"
proof -
  let ?l = "takeWhile isWhiteSpace s"
  let ?m = "dropWhile isWhiteSpace s"
  let ?r = "rev (takeWhile isWhiteSpace (rev ?m))"
  have "rev ?m = takeWhile isWhiteSpace (rev ?m) @ dropWhile isWhiteSpace (rev ?m)"
    by simp
  then have "?m = rev (dropWhile isWhiteSpace (rev ?m)) @ ?r"
    by (metis rev_append rev_rev_ident)
  then have "s = ?l @ js_trim s @ ?r"
    by (metis js_trim_def takeWhile_dropWhile_id)
  moreover have "\<forall>c \<in> set ?l. isWhiteSpace c"
    by (auto dest: set_takeWhileD)
  moreover have "\<forall>c \<in> set ?r. isWhiteSpace c"
    by (auto dest: set_takeWhileD)
  ultimately show ?thesis by blast
qed

lemma dropWhile_rev_keeps_hd:
  assumes "xs \<noteq> []" and "\<not> P (hd xs)"
  shows "\<exists>zs. dropWhile P (rev xs) = zs @ [hd xs]"
proof -
  obtain x ys where xs: "xs = x # ys" using assms(1) by (cases xs) auto
  show ?thesis
  proof (cases "\<forall>y \<in> set (rev ys). P y")
    case True
    then have "dropWhile P (rev ys @ [x]) = dropWhile P [x]"
      by (intro dropWhile_append2) simp
    with assms(2) xs show ?thesis by simp
  next
    case False
    then obtain y where "y \<in> set (rev ys)" and "\<not> P y" by blast
    then have "dropWhile P (rev ys @ [x]) = dropWhile P (rev ys) @ [x]"
      by (rule dropWhile_append1)
    with xs show ?thesis by simp
  qed
qed

lemma js_trim_hd: "js_trim s \<noteq> [] \<Longrightarrow> \<not> isWhiteSpace (hd (js_trim s))"
proof -
  assume ne: "js_trim s \<noteq> []"
  let ?m = "dropWhile isWhiteSpace s"
  have m: "?m \<noteq> []"
  proof
    assume a: "?m = []"
    have "js_trim s = rev (dropWhile isWhiteSpace (rev ?m))"
      by (simp only: js_trim_def)
    also have "\<dots> = []"
      by (simp only: a rev.simps dropWhile.simps)
    finally show False using ne by simp
  qed
  then have hm: "\<not> isWhiteSpace (hd ?m)" by (rule hd_dropWhile)
  from dropWhile_rev_keeps_hd [of ?m isWhiteSpace, OF m hm]
  obtain zs where "dropWhile isWhiteSpace (rev ?m) = zs @ [hd ?m]" by blast
  then have "js_trim s = hd ?m # rev zs" unfolding js_trim_def by simp
  with hm show ?thesis by simp
qed

lemma js_trim_last: "js_trim s \<noteq> [] \<Longrightarrow> \<not> isWhiteSpace (last (js_trim s))"
proof -
  assume ne: "js_trim s \<noteq> []"
  let ?d = "dropWhile isWhiteSpace (rev (dropWhile isWhiteSpace s))"
  have d: "?d \<noteq> []" using ne by (simp add: js_trim_def)
  then have "\<not> isWhiteSpace (hd ?d)" by (rule hd_dropWhile)
  moreover have "last (rev ?d) = hd ?d" using d by (simp add: last_rev)
  ultimately show ?thesis by (simp add: js_trim_def)
qed

section \<open>Unfolding the engine\<close>

lemma trace_emit [simp]: "trace (emit e s) = trace s @ [e]"
  and migrated_emit [simp]: "migrated (emit e s) = migrated s"
  and updated_emit [simp]: "updated (emit e s) = updated s"
  and log_emit [simp]: "log (emit e s) = log s"
  by (simp_all add: emit_def)

lemma calls_emit [simp]: "calls kind (emit e s) = (if kind e then Suc (calls kind s) else calls kind s)"
  by (simp add: calls_def emit_def)

lemma calls_trace_update:
  "calls kind (s\<lparr>trace := t\<rparr>) = length (filter kind t)"
  by (simp add: calls_def)

lemma safeParse_userId: "safeParse ok r = Some u \<Longrightarrow> raw_userId r = JStr (userId u)"
  by (cases "raw_userId r") (auto simp: safeParse_def split: option.splits if_splits)

lemma try_create_valid:
  "safeParse (isEmail api) userData = Some u \<Longrightarrow>
   try_create api userData s =
     (createUser_result api (calls is_CreateUser s), emit (CreateUser (createUser_params u)) s)"
  by (simp add: try_create_def createUser_def)

lemma process_created:
  assumes "safeParse (isEmail api) userData = Some u"
    and "createUser_result api (calls is_CreateUser s) = Inr c"
  shows "processUserToClerk cfg api userData s =
    Some (Returned (s\<lparr>migrated := migrated s + 1, trace := trace s @ [CreateUser (createUser_params u)]\<rparr>))"
  using assms
  by (subst processUserToClerk.simps) (simp add: try_create_valid emit_def)

lemma process_rate_limit_step:
  assumes "safeParse (isEmail api) userData = Some u"
    and "createUser_result api (calls is_CreateUser s) = Inl e" and "status e = JNum 429"
  shows "processUserToClerk cfg api userData s =
    processUserToClerk cfg api userData
      (s\<lparr>trace := trace s @ [CreateUser (createUser_params u), RateLimitCooldown (RETRY_DELAY cfg)]\<rparr>)"
  using assms
  by (subst processUserToClerk.simps) (simp add: try_create_valid emit_def rateLimitCooldown_def)

lemma process_other_error:
  assumes "safeParse (isEmail api) userData = Some u"
    and "createUser_result api (calls is_CreateUser s) = Inl e"
    and "status e \<noteq> JNum 422" and "status e \<noteq> JNum 429"
  shows "processUserToClerk cfg api userData s =
    Some (Returned (s\<lparr>log := log s @ [\<lparr>ae_userId = JStr (userId u), ae_error = e\<rparr>],
                      trace := trace s @ [CreateUser (createUser_params u)]\<rparr>))"
  using assms
  by (subst processUserToClerk.simps)
     (simp add: try_create_valid emit_def appendLog_def safeParse_userId)

lemma process_conflict:
  assumes "safeParse (isEmail api) userData = Some u"
    and "createUser_result api (calls is_CreateUser s) = Inl e" and "status e = JNum 422"
  shows "processUserToClerk cfg api userData s =
    (case updateUser api u (emit (CreateUser (createUser_params u)) s) of
       (Inl e', s2) \<Rightarrow> Some (Thrown e' s2)
     | (Inr None, s2) \<Rightarrow> Some (Returned s2)
     | (Inr (Some up), s2) \<Rightarrow> Some (Returned (s2\<lparr>updated := updated s2 + 1\<rparr>)))"
  using assms
  by (subst processUserToClerk.simps) (simp add: try_create_valid)

lemma process_rate_limited:
  assumes "safeParse (isEmail api) userData = Some u"
    and "\<forall>k<n. \<exists>e. createUser_result api (calls is_CreateUser s + k) = Inl e \<and> status e = JNum 429"
  shows "processUserToClerk cfg api userData s =
    processUserToClerk cfg api userData
      (s\<lparr>trace := trace s @ concat (replicate n
          [CreateUser (createUser_params u), RateLimitCooldown (RETRY_DELAY cfg)])\<rparr>)"
  using assms(2)
proof (induction n arbitrary: s)
  case 0
  show ?case by simp
next
  case (Suc n)
  let ?step = "[CreateUser (createUser_params u), RateLimitCooldown (RETRY_DELAY cfg)]"
  let ?s1 = "s\<lparr>trace := trace s @ ?step\<rparr>"
  from Suc.prems obtain e where e: "createUser_result api (calls is_CreateUser s) = Inl e"
    "status e = JNum 429" by force
  have c1: "calls is_CreateUser ?s1 = Suc (calls is_CreateUser s)"
    by (simp add: calls_def)
  have "\<forall>k<n. \<exists>e. createUser_result api (calls is_CreateUser ?s1 + k) = Inl e \<and> status e = JNum 429"
  proof (intro allI impI)
    fix k assume "k < n"
    then have "Suc k < Suc n" by simp
    with Suc.prems show "\<exists>e. createUser_result api (calls is_CreateUser ?s1 + k) = Inl e \<and> status e = JNum 429"
      unfolding c1 by (metis add_Suc_shift)
  qed
  from Suc.IH [OF this]
  have "processUserToClerk cfg api userData ?s1 =
    processUserToClerk cfg api userData (?s1\<lparr>trace := trace ?s1 @ concat (replicate n ?step)\<rparr>)" .
  moreover have "processUserToClerk cfg api userData s = processUserToClerk cfg api userData ?s1"
    by (rule process_rate_limit_step [OF assms(1) e])
  ultimately show ?case by simp
qed

lemma sample_parse: "safeParse (isEmail (sample_api cr fd)) sample_raw = Some sample_user"
  by (simp add: safeParse_def sample_api_def sample_raw_def sample_user_def)

lemma sample_create_params: "createUser_params sample_user = sample_create"
  by (simp add: createUser_params_def sample_user_def sample_create_def splitName_def
      utf16_def QUOTE_def SPACE_def js_trim_def isWhiteSpace_def)


lemma sample_no_diff: "\<not> fields_differ sample_entity sample_user"
  by (simp add: fields_differ_def sample_user_def sample_entity_def splitName_def
      utf16_def QUOTE_def SPACE_def js_trim_def isWhiteSpace_def of_undef_def)

lemma calls_initial [simp]: "calls kind initial = 0"
  by (simp add: calls_def initial_def)

lemma filter_retries:
  "filter is_RateLimitCooldown (concat (replicate n [CreateUser p, RateLimitCooldown r]))
     = replicate n (RateLimitCooldown r)"
  by (induction n) simp_all

lemma updateUser_not_found:
  assumes "getUserList_result api (calls is_GetUserList s) = Inr []"
  shows "updateUser api u s = (Inr None, emit (GetUserList (email u)) s)"
  using assms by (simp add: updateUser_def)

lemma updateUser_no_diff:
  assumes "getUserList_result api (calls is_GetUserList s) = Inr (existing # others)"
    and "\<not> fields_differ existing u"
  shows "updateUser api u s = (Inr None, emit (GetUserList (email u)) s)"
  using assms by (simp add: updateUser_def)

lemma updateUser_diff:
  assumes "getUserList_result api (calls is_GetUserList s) = Inr (existing # others)"
    and "fields_differ existing u"
    and "updateUser_result api (calls is_UpdateUser s) = Inr up"
  shows "updateUser api u s =
    (Inr (Some up), emit (UpdateUser (cu_id existing) (updateUser_params u)) (emit (GetUserList (email u)) s))"
  using assms by (simp add: updateUser_def Let_def)

lemma fields_differ_iff:
  "fields_differ existing u \<longleftrightarrow>
     cu_externalId existing \<noteq> JStr (userId u) \<or>
     cu_firstName existing \<noteq> of_undef (fst (splitName (name u))) \<or>
     cu_lastName existing \<noteq> of_undef (snd (splitName (name u))) \<or>
     cu_publicMetadata_agreedTerms existing \<noteq> JBool (agreedTerms u) \<or>
     cu_publicMetadata_org existing \<noteq> of_undef (if location u = Some QUOTE then None else location u) \<or>
     cu_createOrganizationEnabled existing"
  by (simp add: fields_differ_def Let_def split: prod.splits)

lemma process_conflict_found:
  assumes "safeParse (isEmail api) userData = Some u"
    and "createUser_result api (calls is_CreateUser s) = Inl e" and "status e = JNum 422"
    and "getUserList_result api (calls is_GetUserList s) = Inr (existing # others)"
    and "updateUser_result api (calls is_UpdateUser s) = Inr up"
  shows "processUserToClerk cfg api userData s =
      Some (Returned
        (if fields_differ existing u
         then s\<lparr>updated := updated s + 1,
                trace := trace s @ [CreateUser (createUser_params u), GetUserList (email u),
                                    UpdateUser (cu_id existing) (updateUser_params u)]\<rparr>
         else s\<lparr>trace := trace s @ [CreateUser (createUser_params u), GetUserList (email u)]\<rparr>))"
proof -
  let ?s1 = "emit (CreateUser (createUser_params u)) s"
  have l: "getUserList_result api (calls is_GetUserList ?s1) = Inr (existing # others)"
    using assms(4) by simp
  have up: "updateUser_result api (calls is_UpdateUser ?s1) = Inr up"
    using assms(5) by simp
  show ?thesis
  proof (cases "fields_differ existing u")
    case True
    from updateUser_diff [OF l True up] True show ?thesis
      by (simp add: process_conflict [OF assms(1-3)] emit_def)
  next
    case False
    from updateUser_no_diff [OF l False] False show ?thesis
      by (simp add: process_conflict [OF assms(1-3)] emit_def)
  qed
qed



lemma updateUser_trace:
  "updateUser api u s = (res, s') \<Longrightarrow>
   trace s' = trace s @ [GetUserList (email u)]
   \<or> (\<exists>i q. trace s' = trace s @ [GetUserList (email u), UpdateUser i q])"
  by (auto simp: updateUser_def Let_def split: sum.splits list.splits if_splits)

lemma process_shape:
  assumes "processUserToClerk cfg api userData s = Some r"
  shows "shape cfg s r"
  using assms
proof (induction cfg api userData s r rule: processUserToClerk.raw_induct [rotated 1, consumes 1, case_names step])
  case (step f cfg api userData s r)
  show ?case
  proof (cases "safeParse (isEmail api) userData")
    case None
    with step(2) have "r = Returned (appendLog \<lparr>ae_userId = raw_userId userData, ae_error = zodError\<rparr> s)"
      by (simp add: try_create_def zodError_def)
    then show ?thesis by (simp add: shape_def appendLog_def)
  next
    case (Some u)
    let ?c = "CreateUser (createUser_params u)"
    let ?s1 = "emit ?c s"
    show ?thesis
    proof (cases "createUser_result api (calls is_CreateUser s)")
      case (Inr c)
      with Some step(2) have "trace (state_of r) = trace s @ [?c]"
        by (auto simp: try_create_valid)
      then show ?thesis by (simp add: shape_def)
    next
      case (Inl e)
      consider (conflict) "status e = JNum 422" | (limit) "status e = JNum 429"
        | (other) "status e \<noteq> JNum 422" "status e \<noteq> JNum 429" by blast
      then show ?thesis
      proof cases
        case conflict
        obtain res s2 where up: "updateUser api u ?s1 = (res, s2)" by (cases "updateUser api u ?s1")
        with Some Inl conflict step(2) have "state_of r = s2 \<or> state_of r = s2\<lparr>updated := updated s2 + 1\<rparr>"
          by (auto simp: try_create_valid split: sum.splits option.splits)
        then have "trace (state_of r) = trace s2" by auto
        with updateUser_trace [OF up] show ?thesis
          by (auto simp: shape_def)
      next
        case limit
        let ?s2 = "rateLimitCooldown cfg ?s1"
        from Some Inl limit step(2) have "f cfg api userData ?s2 = Some r"
          by (simp add: try_create_valid)
        from step(1) [OF this] obtain t where t: "trace (state_of r) = trace ?s2 @ t"
          "\<forall>x \<in> set t. \<not> is_Cooldown x"
          "attempts_delayed (DELAY cfg) (RETRY_DELAY cfg) (Some (RateLimitCooldown (RETRY_DELAY cfg))) False t"
          by (auto simp: shape_def)
        have "trace (state_of r) = trace s @ (?c # RateLimitCooldown (RETRY_DELAY cfg) # t)"
          using t(1) by (simp add: rateLimitCooldown_def)
        with t(2,3) show ?thesis
          unfolding shape_def by (intro exI [of _ "?c # RateLimitCooldown (RETRY_DELAY cfg) # t"]) simp
      next
        case other
        with Some Inl step(2) have "trace (state_of r) = trace s @ [?c]"
          by (auto simp: try_create_valid appendLog_def)
        then show ?thesis by (simp add: shape_def)
      qed
    qed
  qed
qed


lemma attempts_delayed_append:
  assumes "attempts_delayed d r prev fresh t1" and "\<forall>p f. attempts_delayed d r p f t2"
  shows "attempts_delayed d r prev fresh (t1 @ t2)"
  using assms(1)
proof (induction t1 arbitrary: prev fresh)
  case Nil
  from assms(2) show ?case by simp
next
  case (Cons e t1)
  then show ?case by (cases e) auto
qed

lemma main_loop_shape:
  assumes "main_loop cfg api users s = Some res"
  shows "\<exists>t. trace (state_of res) = trace s @ t
     \<and> (\<forall>p f. attempts_delayed (DELAY cfg) (RETRY_DELAY cfg) p f t)
     \<and> length (filter is_Cooldown t) \<le> length users
     \<and> (\<forall>s'. res = Returned s' \<longrightarrow> length (filter is_Cooldown t) = length users)"
  using assms
proof (induction users arbitrary: s)
  case Nil
  then show ?case by auto
next
  case (Cons userData rest)
  let ?D = "DELAY cfg" and ?R = "RETRY_DELAY cfg"
  from Cons.prems obtain r1 where r1: "processUserToClerk cfg api userData (cooldown cfg s) = Some r1"
    by (cases "processUserToClerk cfg api userData (cooldown cfg s)") auto
  from process_shape [OF r1] obtain t1 where t1:
    "trace (state_of r1) = trace s @ Cooldown ?D # t1"
    "\<forall>x \<in> set t1. \<not> is_Cooldown x"
    "attempts_delayed ?D ?R (Some (Cooldown ?D)) True t1"
    by (auto simp: shape_def cooldown_def)
  have nocd: "filter is_Cooldown t1 = []"
    using t1(2) by (simp add: filter_empty_conv)
  show ?case
  proof (cases r1)
    case (Thrown e s')
    with Cons.prems r1 have res: "res = Thrown e s'" by simp
    have "\<forall>p f. attempts_delayed ?D ?R p f (Cooldown ?D # t1)"
      using t1(3) by simp
    with res Thrown t1(1) nocd show ?thesis
      by (intro exI [of _ "Cooldown ?D # t1"]) simp
  next
    case (Returned s')
    with Cons.prems r1 have "main_loop cfg api rest s' = Some res" by simp
    from Cons.IH [OF this] obtain t2 where t2:
      "trace (state_of res) = trace s' @ t2"
      "\<forall>p f. attempts_delayed ?D ?R p f t2"
      "length (filter is_Cooldown t2) \<le> length rest"
      "\<forall>s''. res = Returned s'' \<longrightarrow> length (filter is_Cooldown t2) = length rest"
      by blast
    have tr: "trace (state_of res) = trace s @ (Cooldown ?D # t1 @ t2)"
      using t1(1) t2(1) Returned by simp
    have "attempts_delayed ?D ?R (Some (Cooldown ?D)) True (t1 @ t2)"
      by (rule attempts_delayed_append [OF t1(3) t2(2)])
    then have ad: "\<forall>p f. attempts_delayed ?D ?R p f (Cooldown ?D # t1 @ t2)"
      by simp
    from tr ad t2(3,4) nocd show ?thesis
      by (intro exI [of _ "Cooldown ?D # t1 @ t2"]) simp
  qed
qed

lemma sample_rate_limited_run:
  "main_loop sample_cfg
      (sample_api (\<lambda>k. if k = 0 then Inl (http_error 429) else Inr sample_entity) [])
      [sample_raw] initial
   = Some (Returned \<lparr>migrated = 1, updated = 0, log = [],
        trace = [Cooldown (Some 1000), CreateUser sample_create,
                 RateLimitCooldown (Some 10000), CreateUser sample_create]\<rparr>)"
proof -
  let ?api = "sample_api (\<lambda>k. if k = 0 then Inl (http_error 429) else Inr sample_entity) []"
  let ?s0 = "cooldown sample_cfg initial"
  let ?s1 = "?s0\<lparr>trace := trace ?s0 @ [CreateUser (createUser_params sample_user),
                 RateLimitCooldown (RETRY_DELAY sample_cfg)]\<rparr>"
  have p: "safeParse (isEmail ?api) sample_raw = Some sample_user"
    by (rule sample_parse)
  have a: "createUser_result ?api (calls is_CreateUser ?s0) = Inl (http_error 429)"
    by (simp add: sample_api_def cooldown_def)
  have b: "status (http_error 429) = JNum 429"
    by (simp add: http_error_def)
  have c: "createUser_result ?api (calls is_CreateUser ?s1) = Inr sample_entity"
    by (simp add: sample_api_def cooldown_def calls_def emit_def)
  have "processUserToClerk sample_cfg ?api sample_raw ?s0
      = processUserToClerk sample_cfg ?api sample_raw ?s1"
    by (rule process_rate_limit_step [OF p a b])
  also have "\<dots> = Some (Returned (?s1\<lparr>migrated := migrated ?s1 + 1,
      trace := trace ?s1 @ [CreateUser (createUser_params sample_user)]\<rparr>))"
    by (rule process_created [OF p c])
  finally show ?thesis
    by (simp add: sample_create_params cooldown_def emit_def initial_def sample_cfg_def)
qed

lemma default_config:
  "load_config Map.empty = Some \<lparr>DELAY = Some 1, RETRY_DELAY = Some 10, OFFSET = Some 0\<rparr>"
  by (simp add: load_config_def parseInt_def utf16_def isWhiteSpace_def isRadixDigit_def
      digitValue_def Let_def)

section \<open>Unfolding the traversals\<close>

lemma more_pages_iff:
  assumes "0 < P"
  shows "Suc k * P < T \<longleftrightarrow> Suc k < max 1 (ceil_div T P)"
proof -
  have "Suc k < ceil_div T P \<longleftrightarrow> Suc (Suc k) * P \<le> T + P - 1"
    unfolding ceil_div_def using assms
    by (simp add: less_eq_div_iff_mult_less_eq Suc_le_eq [symmetric] del: mult_Suc)
  also have "\<dots> \<longleftrightarrow> Suc k * P < T"
    using assms by (cases T) auto
  finally show ?thesis by auto
qed

lemma do_while_step:
  assumes "api (length reqs) \<lparr>offset = Some off, limit = lim\<rparr> = Inr pg"
  shows "do_while_hasMore api lim off items reqs =
    (if totalCount pg > length (items @ data pg)
     then do_while_hasMore api lim (off + lim) (items @ data pg) (reqs @ [\<lparr>offset = Some off, limit = lim\<rparr>])
     else Some (Inr (items @ data pg), reqs @ [\<lparr>offset = Some off, limit = lim\<rparr>]))"
  using assms by (subst do_while_hasMore.simps) (simp add: Let_def)

lemma while_step:
  assumes "api (length reqs) \<lparr>offset = Some (off + lim), limit = lim\<rparr> = Inr pg"
  shows "while_hasMore api lim tot off items True reqs =
     while_hasMore api lim tot (off + lim) (items @ data pg) (tot > length (items @ data pg))
       (reqs @ [\<lparr>offset = Some (off + lim), limit = lim\<rparr>])"
  using assms by (subst while_hasMore.simps) (simp add: Let_def)

lemma while_done:
  "while_hasMore api lim tot off items False reqs = Some (Inr items, reqs)"
  by (subst while_hasMore.simps) simp

lemma do_while_serves:
  assumes P: "0 < P" and sv: "serves api (request_at P) P T"
    and k: "k < max 1 (ceil_div T P)"
    and inv: "length reqs = k" "length items = k * P"
  shows "\<exists>items'. do_while_hasMore api P (k * P) items reqs =
       Some (Inr items', reqs @ map (request_at P) [k..<max 1 (ceil_div T P)])
     \<and> length items' = T"
  using k inv
proof (induction "max 1 (ceil_div T P) - k" arbitrary: k items reqs)
  case 0
  from "0.hyps" "0.prems"(1) have False by arith
  then show ?case ..
next
  case (Suc m)
  let ?n = "max 1 (ceil_div T P)"
  from sv Suc.prems(1) obtain pg where pg: "api k (request_at P k) = Inr pg"
    "totalCount pg = T" "length (data pg) = min P (T - k * P)"
    unfolding serves_def by blast
  have kT: "k = 0 \<or> k * P < T"
    using more_pages_iff [OF P, of "k - 1" T] Suc.prems(1) by (cases k) auto
  have len: "length (items @ data pg) = min (Suc k * P) T"
    using pg(3) Suc.prems(3) kT by auto
  have step: "do_while_hasMore api P (k * P) items reqs =
    (if T > length (items @ data pg)
     then do_while_hasMore api P (Suc k * P) (items @ data pg) (reqs @ [request_at P k])
     else Some (Inr (items @ data pg), reqs @ [request_at P k]))"
    using do_while_step [of api reqs "k * P" P pg items] pg(1,2) Suc.prems(2)
    by (simp add: request_at_def add.commute)
  show ?case
  proof (cases "Suc k < ?n")
    case True
    then have more: "Suc k * P < T" using more_pages_iff [OF P] by blast
    then have l: "length (items @ data pg) = Suc k * P" using len by simp
    have m: "m = ?n - Suc k" using Suc.hyps(2) by simp
    from Suc.hyps(1) [OF m True _ l, of "reqs @ [request_at P k]"] Suc.prems(2)
    obtain items' where "do_while_hasMore api P (Suc k * P) (items @ data pg) (reqs @ [request_at P k])
        = Some (Inr items', (reqs @ [request_at P k]) @ map (request_at P) [Suc k..<?n])"
      "length items' = T" by auto
    moreover have "[k..<?n] = k # [Suc k..<?n]"
      using Suc.prems(1) by (simp add: upt_conv_Cons)
    ultimately show ?thesis using step more l by simp
  next
    case False
    with Suc.prems(1) have last: "Suc k = ?n" by simp
    then have nomore: "\<not> Suc k * P < T" using more_pages_iff [OF P, of k T] by simp
    then have l: "length (items @ data pg) = T" using len by simp
    have "[k..<?n] = [k]" using last by (metis upt_Suc_append le_refl upt_conv_Nil lessI less_imp_le_nat append_Nil not_less_iff_gr_or_eq)
    with step l show ?thesis by simp
  qed
qed


lemma while_serves:
  assumes P: "0 < P" and sv: "serves api (request_at_old P) P T"
    and k: "0 < k" "k \<le> max 1 (ceil_div T P)"
    and inv: "length reqs = k" "length items = min (k * P) T"
  shows "\<exists>items'. while_hasMore api P T ((k - 1) * P) items (T > length items) reqs =
       Some (Inr items', reqs @ map (request_at_old P) [k..<max 1 (ceil_div T P)])
     \<and> length items' = T"
  using k inv
proof (induction "max 1 (ceil_div T P) - k" arbitrary: k items reqs)
  case 0
  let ?n = "max 1 (ceil_div T P)"
  from "0.hyps" "0.prems"(2) have kn: "k = ?n" by arith
  obtain j where j: "k = Suc j" using "0.prems"(1) by (cases k) auto
  have "\<not> Suc j < ?n" using kn j by linarith
  with more_pages_iff [OF P, of j T] have "\<not> Suc j * P < T" by blast
  then have nm: "\<not> k * P < T" unfolding j .
  have "length items = T" using "0.prems"(4) nm by (auto simp: min_def)
  then show ?case using kn by (simp add: while_done)
next
  case (Suc m)
  let ?n = "max 1 (ceil_div T P)"
  from Suc.hyps(2) have kn: "k < ?n" by arith
  obtain j where j: "k = Suc j" using Suc.prems(1) by (cases k) auto
  have "Suc j < ?n" using kn j by linarith
  with more_pages_iff [OF P, of j T] have "Suc j * P < T" by blast
  then have more: "k * P < T" unfolding j .
  then have li: "length items = k * P" using Suc.prems(4) by simp
  from sv kn obtain pg where pg: "api k (request_at_old P k) = Inr pg"
    "totalCount pg = T" "length (data pg) = min P (T - k * P)"
    unfolding serves_def by blast
  have req: "request_at_old P k = \<lparr>offset = Some ((k - 1) * P + P), limit = P\<rparr>"
    using j by (simp add: request_at_old_def)
  have len: "length (items @ data pg) = min (Suc k * P) T"
    using pg(3) li more by auto
  have step: "while_hasMore api P T ((k - 1) * P) items True reqs =
     while_hasMore api P T ((k - 1) * P + P) (items @ data pg) (T > length (items @ data pg))
       (reqs @ [request_at_old P k])"
    using while_step [of api reqs "(k - 1) * P" P pg T items] pg(1) Suc.prems(3) req
    by simp
  have off: "(k - 1) * P + P = (Suc k - 1) * P" using j by simp
  have m: "m = ?n - Suc k" using Suc.hyps(2) by simp
  have "0 < Suc k" "Suc k \<le> ?n" using kn by simp_all
  from Suc.hyps(1) [OF m this _ len, of "reqs @ [request_at_old P k]"] Suc.prems(3)
  obtain items' where "while_hasMore api P T ((Suc k - 1) * P) (items @ data pg)
        (T > length (items @ data pg)) (reqs @ [request_at_old P k])
      = Some (Inr items', (reqs @ [request_at_old P k]) @ map (request_at_old P) [Suc k..<?n])"
    "length items' = T" by auto
  moreover have "[k..<?n] = k # [Suc k..<?n]"
    using kn by (simp add: upt_conv_Cons)
  ultimately show ?case using step more li off by simp
qed

lemma retrieve_users_serves:
  assumes P: "0 < P" and sv: "serves api (request_at_old P) P T"
  shows "\<exists>items. retrieve_users_limit api P =
       Some (Inr items, map (request_at_old P) [0..<max 1 (ceil_div T P)])
     \<and> length items = T"
proof -
  let ?n = "max 1 (ceil_div T P)"
  from sv obtain pg where pg: "api 0 (request_at_old P 0) = Inr pg"
    "totalCount pg = T" "length (data pg) = min P T"
    unfolding serves_def by force
  have r0: "request_at_old P 0 = \<lparr>offset = None, limit = P\<rparr>"
    by (simp add: request_at_old_def)
  have "retrieve_users_limit api P =
      while_hasMore api P T ((1 - 1) * P) (data pg) (T > length (data pg)) [request_at_old P 0]"
    using pg(1,2) r0 by (simp add: retrieve_users_limit_def Let_def)
  moreover from while_serves [OF P sv, of 1 "[request_at_old P 0]" "data pg"] pg(3)
  obtain items' where "while_hasMore api P T ((1 - 1) * P) (data pg) (T > length (data pg))
        [request_at_old P 0]
      = Some (Inr items', [request_at_old P 0] @ map (request_at_old P) [1..<?n])"
    "length items' = T" by auto
  moreover have "[0..<?n] = 0 # [1..<?n]"
    by (simp add: upt_conv_Cons)
  ultimately show ?thesis by simp
qed

lemma paged_serves:
  "serves (paged xs) (request_at P) P (length xs)"
  "serves (paged xs) (request_at_old P) P (length xs)"
  by (auto simp: serves_def paged_def request_at_def request_at_old_def)

lemma while_never_ends_aux:
  assumes "while_hasMore api lim tot off items hasMore reqs = Some y"
  shows "\<not> (api = paged xs \<and> hasMore \<and> length xs < tot
            \<and> length items \<le> min (off + lim) (length xs))"
  using assms
proof (induction api lim tot off items hasMore reqs y
    rule: while_hasMore.raw_induct [rotated 1, consumes 1, case_names step])
  case (step f api lim tot off items hasMore reqs y)
  show ?case
  proof
    assume inv: "api = paged xs \<and> hasMore \<and> length xs < tot
            \<and> length items \<le> min (off + lim) (length xs)"
    let ?page = "take lim (drop (off + lim) xs)"
    let ?items = "items @ ?page"
    have len: "length ?items \<le> min (off + lim + lim) (length xs)"
      using inv by auto
    then have more: "tot > length ?items" using inv by simp
    from step(2) inv more
    have "f api lim tot (off + lim) ?items True (reqs @ [\<lparr>offset = Some (off + lim), limit = lim\<rparr>])
        = Some y"
      by (simp add: paged_def Let_def)
    from step(1) [OF this] inv len show False by simp
  qed
qed

lemma while_never_ends:
  assumes "length xs < tot" and "length items \<le> min (off + lim) (length xs)"
  shows "while_hasMore (paged xs) lim tot off items True reqs = None"
proof (cases "while_hasMore (paged xs) lim tot off items True reqs")
  case None
  then show ?thesis .
next
  case (Some y)
  from while_never_ends_aux [OF Some, of xs] assms show ?thesis by simp
qed

lemma same_text_strict: "v = of_undef x \<Longrightarrow> same_text v x"
  by (cases x) (simp_all add: same_text_def of_undef_def)

lemma not_same_text_differs: "\<not> same_text v x \<Longrightarrow> v \<noteq> of_undef x"
  using same_text_strict by blast



lemma mononym_parse: "safeParse (isEmail (sample_api cr fd)) mononym_raw = Some mononym_user"
  by (simp add: safeParse_def sample_api_def mononym_raw_def mononym_user_def)

lemma mononym_split: "splitName (name mononym_user) = (Some (utf16 ''Ada''), None)"
  by (simp add: mononym_user_def splitName_def
      utf16_def QUOTE_def SPACE_def js_trim_def isWhiteSpace_def)

lemma mononym_create_params: "createUser_params mononym_user = mononym_create"
  by (simp add: createUser_params_def mononym_split) (simp add: mononym_user_def mononym_create_def)

lemma mononym_update_params: "updateUser_params mononym_user = mononym_update"
  by (simp add: updateUser_params_def mononym_split) (simp add: mononym_user_def mononym_update_def)

lemma mononym_agrees: "spec_agrees mononym_entity mononym_user"
  by (simp add: spec_agrees_def mononym_split same_text_def)
     (simp add: mononym_entity_def mononym_user_def)

lemma mononym_differs: "fields_differ mononym_entity mononym_user"
  by (simp add: fields_differ_iff mononym_split of_undef_def) (simp add: mononym_entity_def)



section \<open>The record transformer: name splitting\<close>

lemma count_one_split:
  assumes "count_list xs c = 1"
  shows "\<exists>a b. xs = a @ c # b \<and> c \<notin> set a \<and> c \<notin> set b"
proof -
  have "c \<in> set xs"
    using assms count_list_0_iff [of xs c] by auto
  then obtain a b where ab: "xs = a @ c # b" "c \<notin> set a"
    by (auto dest: split_list_first)
  with assms have "count_list b c = 0" by simp
  then have "c \<notin> set b" by (simp add: count_list_0_iff)
  with ab show ?thesis by blast
qed

lemma splitName_two_tokens:
  assumes "nm \<noteq> QUOTE" and "js_trim nm = a @ SPACE # b"
    and "SPACE \<notin> set a" and "SPACE \<notin> set b"
  shows "splitName (Some nm) = (Some a, Some b)"
  using assms by (simp add: splitName_def js_split_two)

lemma splitName_other_count:
  assumes "nm \<noteq> QUOTE" and "count_list (js_trim nm) SPACE \<noteq> 1"
  shows "splitName (Some nm) = (Some (js_trim nm), None)"
  using assms by (simp add: splitName_def length_js_split)

lemma splitName_absent: "splitName None = (None, None)"
  by (simp add: splitName_def)

lemma splitName_quote: "splitName (Some QUOTE) = (None, None)"
  by (simp add: splitName_def)

lemma js_trim_ascii_name:
  "js_trim (utf16 ''Ada Lovelace'') = utf16 ''Ada'' @ SPACE # utf16 ''Lovelace''"
  by (simp add: utf16_def SPACE_def js_trim_def isWhiteSpace_def)

text \<open>
  C6 (amended). For every name other than the literal that consists of one quotation
  mark, name splitting removes the white space at both ends (the name is the trimmed
  string between two runs of white space, and the trimmed string neither starts nor ends
  with white space) and splits at single spaces: when the trimmed string is two tokens
  \<open>a\<close> and \<open>b\<close> free of spaces around one space, which is the case exactly when it holds
  one space, the result is first name \<open>a\<close> and last name \<open>b\<close>; when the number of spaces
  in it is not one (one token, or three and more), the first name is the whole trimmed
  string and the last name is absent.
\<close>

theorem splitName_tokens:
  assumes "nm \<noteq> QUOTE"
  shows "(\<exists>l r. nm = l @ js_trim nm @ r \<and> (\<forall>c \<in> set l. isWhiteSpace c) \<and> (\<forall>c \<in> set r. isWhiteSpace c))
       \<and> (js_trim nm \<noteq> [] \<longrightarrow> \<not> isWhiteSpace (hd (js_trim nm)) \<and> \<not> isWhiteSpace (last (js_trim nm)))
       \<and> (\<forall>a b. js_trim nm = a @ SPACE # b \<and> SPACE \<notin> set a \<and> SPACE \<notin> set b
             \<longrightarrow> splitName (Some nm) = (Some a, Some b))
       \<and> (count_list (js_trim nm) SPACE = 1 \<longrightarrow>
             (\<exists>a b. js_trim nm = a @ SPACE # b \<and> SPACE \<notin> set a \<and> SPACE \<notin> set b))
       \<and> (count_list (js_trim nm) SPACE \<noteq> 1 \<longrightarrow> splitName (Some nm) = (Some (js_trim nm), None))"
proof (intro conjI)
  show "count_list (js_trim nm) SPACE = 1 \<longrightarrow>
      (\<exists>a b. js_trim nm = a @ SPACE # b \<and> SPACE \<notin> set a \<and> SPACE \<notin> set b)"
    by (blast dest: count_one_split)
  show "\<exists>l r. nm = l @ js_trim nm @ r \<and> (\<forall>c \<in> set l. isWhiteSpace c) \<and> (\<forall>c \<in> set r. isWhiteSpace c)"
    by (rule js_trim_decompose)
  show "js_trim nm \<noteq> [] \<longrightarrow> \<not> isWhiteSpace (hd (js_trim nm)) \<and> \<not> isWhiteSpace (last (js_trim nm))"
    by (simp add: js_trim_hd js_trim_last)
  show "\<forall>a b. js_trim nm = a @ SPACE # b \<and> SPACE \<notin> set a \<and> SPACE \<notin> set b
          \<longrightarrow> splitName (Some nm) = (Some a, Some b)"
    using assms by (blast intro: splitName_two_tokens)
  show "count_list (js_trim nm) SPACE \<noteq> 1 \<longrightarrow> splitName (Some nm) = (Some (js_trim nm), None)"
    using assms by (blast intro: splitName_other_count)
qed

theorem splitName_tokens_witness:
  "utf16 ''Ada Lovelace'' \<noteq> QUOTE
   \<and> splitName (Some (utf16 ''Ada Lovelace'')) = (Some (utf16 ''Ada''), Some (utf16 ''Lovelace''))
   \<and> utf16 '' Ada '' \<noteq> QUOTE
   \<and> js_trim (utf16 '' Ada '') = utf16 ''Ada''
   \<and> splitName (Some (utf16 '' Ada '')) = (Some (utf16 ''Ada''), None)"
proof -
  have n1: "utf16 ''Ada Lovelace'' \<noteq> QUOTE"
    by (simp add: utf16_def QUOTE_def)
  have s1: "SPACE \<notin> set (utf16 ''Ada'')" "SPACE \<notin> set (utf16 ''Lovelace'')"
    by (simp_all add: utf16_def SPACE_def)
  have r1: "splitName (Some (utf16 ''Ada Lovelace'')) = (Some (utf16 ''Ada''), Some (utf16 ''Lovelace''))"
    using splitName_tokens [OF n1] js_trim_ascii_name s1 by blast
  have n2: "utf16 '' Ada '' \<noteq> QUOTE"
    by (simp add: utf16_def QUOTE_def)
  have t2: "js_trim (utf16 '' Ada '') = utf16 ''Ada''"
    by (simp add: utf16_def js_trim_def isWhiteSpace_def)
  have c2: "count_list (js_trim (utf16 '' Ada '')) SPACE \<noteq> 1"
    by (simp add: t2) (simp add: utf16_def SPACE_def)
  have r2: "splitName (Some (utf16 '' Ada '')) = (Some (utf16 ''Ada''), None)"
    using splitName_tokens [OF n2] c2 t2 by simp
  from n1 r1 n2 t2 r2 show ?thesis by blast
qed

text \<open>
  C6 as stated fails at the name that is one quotation mark: its trimmed string is one
  token, and the first name is absent, not that token.
\<close>

theorem splitName_quote_counterexample:
  "count_list (js_trim QUOTE) SPACE \<noteq> 1
   \<and> splitName (Some QUOTE) \<noteq> (Some (js_trim QUOTE), None)"
  by (simp add: splitName_def QUOTE_def SPACE_def js_trim_def isWhiteSpace_def)

section \<open>The record transformer: the quotation-mark literal\<close>

text \<open>
  C7. A record whose name is the literal that consists of one quotation mark is
  transformed as the same record without a name: the create and update payloads are
  those of the record without a name, they carry neither first nor last name, and the
  field comparison is that of the record without a name. In the same way a location
  that is this literal is transformed as no location: the payloads carry no
  organization hint.
\<close>

theorem quote_is_absent:
  "(name u = Some QUOTE \<longrightarrow>
      createUser_params u = createUser_params (u\<lparr>name := None\<rparr>)
      \<and> c_firstName (createUser_params u) = None \<and> c_lastName (createUser_params u) = None
      \<and> updateUser_params u = updateUser_params (u\<lparr>name := None\<rparr>)
      \<and> u_firstName (updateUser_params u) = None \<and> u_lastName (updateUser_params u) = None
      \<and> fields_differ existing u = fields_differ existing (u\<lparr>name := None\<rparr>))
   \<and> (location u = Some QUOTE \<longrightarrow>
      createUser_params u = createUser_params (u\<lparr>location := None\<rparr>)
      \<and> md_org (c_publicMetadata (createUser_params u)) = None
      \<and> updateUser_params u = updateUser_params (u\<lparr>location := None\<rparr>)
      \<and> md_org (u_publicMetadata (updateUser_params u)) = None
      \<and> fields_differ existing u = fields_differ existing (u\<lparr>location := None\<rparr>))"
  by (simp add: createUser_params_def updateUser_params_def fields_differ_def
      splitName_quote splitName_absent Let_def split: prod.splits)

theorem quote_is_absent_witness:
  "name \<lparr>userId = utf16 ''u1'', email = utf16 ''a@x.com'', name = Some QUOTE,
         location = Some QUOTE, agreedTerms = True\<rparr> = Some QUOTE
   \<and> location \<lparr>userId = utf16 ''u1'', email = utf16 ''a@x.com'', name = Some QUOTE,
         location = Some QUOTE, agreedTerms = True\<rparr> = Some QUOTE
   \<and> createUser_params \<lparr>userId = utf16 ''u1'', email = utf16 ''a@x.com'', name = Some QUOTE,
         location = Some QUOTE, agreedTerms = True\<rparr>
     = \<lparr>c_externalId = utf16 ''u1'', c_emailAddress = [utf16 ''a@x.com''],
        c_firstName = None, c_lastName = None, c_skipPasswordRequirement = True,
        c_publicMetadata = \<lparr>md_agreedTerms = True, md_emailConsent = False, md_org = None\<rparr>\<rparr>"
  using quote_is_absent [of "\<lparr>userId = utf16 ''u1'', email = utf16 ''a@x.com'',
      name = Some QUOTE, location = Some QUOTE, agreedTerms = True\<rparr>"]
  by (simp add: createUser_params_def splitName_absent Let_def)

section \<open>The rate-limit governor\<close>

text \<open>
  C3. A valid record whose create attempt is answered by a rate-limit signal (status 429)
  \<open>n\<close> times and then succeeds is processed to the end, for every \<open>n\<close> (there is no
  maximum number of retries): the run returns, it sleeps the configured retry delay exactly
  \<open>n\<close> times, once after each rejected attempt, the created counter grows by one, and
  the updated counter and the audit log are unchanged. With \<open>n = 2\<close> these are the two
  cooldown sleeps of the claim.
\<close>

theorem rate_limit_retries:
  assumes "safeParse (isEmail api) userData = Some u"
    and "\<forall>k<n. \<exists>e. createUser_result api (calls is_CreateUser s + k) = Inl e \<and> status e = JNum 429"
    and "createUser_result api (calls is_CreateUser s + n) = Inr created"
  shows "processUserToClerk cfg api userData s =
      Some (Returned (s\<lparr>migrated := migrated s + 1,
        trace := trace s
          @ concat (replicate n [CreateUser (createUser_params u), RateLimitCooldown (RETRY_DELAY cfg)])
          @ [CreateUser (createUser_params u)]\<rparr>))
    \<and> filter is_RateLimitCooldown
         (concat (replicate n [CreateUser (createUser_params u), RateLimitCooldown (RETRY_DELAY cfg)])
          @ [CreateUser (createUser_params u)])
       = replicate n (RateLimitCooldown (RETRY_DELAY cfg))"
proof
  let ?retries = "concat (replicate n [CreateUser (createUser_params u), RateLimitCooldown (RETRY_DELAY cfg)])"
  let ?s = "s\<lparr>trace := trace s @ ?retries\<rparr>"
  have "length (filter is_CreateUser ?retries) = n"
    by (induction n) simp_all
  then have "calls is_CreateUser ?s = calls is_CreateUser s + n"
    by (simp add: calls_def)
  with assms(3) have "createUser_result api (calls is_CreateUser ?s) = Inr created"
    by simp
  from process_created [OF assms(1) this]
  have "processUserToClerk cfg api userData ?s =
      Some (Returned (?s\<lparr>migrated := migrated ?s + 1,
         trace := trace ?s @ [CreateUser (createUser_params u)]\<rparr>))" .
  then show "processUserToClerk cfg api userData s =
      Some (Returned (s\<lparr>migrated := migrated s + 1,
        trace := trace s @ ?retries @ [CreateUser (createUser_params u)]\<rparr>))"
    by (simp add: process_rate_limited [OF assms(1,2)])
  show "filter is_RateLimitCooldown (?retries @ [CreateUser (createUser_params u)])
       = replicate n (RateLimitCooldown (RETRY_DELAY cfg))"
    by (simp add: filter_retries)
qed

theorem rate_limit_retries_witness:
  "safeParse (isEmail (sample_api (\<lambda>k. if k < 2 then Inl (http_error 429) else Inr sample_entity) []))
      sample_raw = Some sample_user
   \<and> createUser_result
          (sample_api (\<lambda>k. if k < 2 then Inl (http_error 429) else Inr sample_entity) [])
          (calls is_CreateUser initial + 0) = Inl (http_error 429)
   \<and> createUser_result
          (sample_api (\<lambda>k. if k < 2 then Inl (http_error 429) else Inr sample_entity) [])
          (calls is_CreateUser initial + 1) = Inl (http_error 429)
   \<and> status (http_error 429) = JNum 429
   \<and> createUser_result
          (sample_api (\<lambda>k. if k < 2 then Inl (http_error 429) else Inr sample_entity) [])
          (calls is_CreateUser initial + 2) = Inr sample_entity
   \<and> processUserToClerk sample_cfg
        (sample_api (\<lambda>k. if k < 2 then Inl (http_error 429) else Inr sample_entity) [])
        sample_raw initial
      = Some (Returned \<lparr>migrated = 1, updated = 0, log = [],
          trace = [CreateUser sample_create, RateLimitCooldown (Some 10000),
                   CreateUser sample_create, RateLimitCooldown (Some 10000),
                   CreateUser sample_create]\<rparr>)"
proof -
  let ?api = "sample_api (\<lambda>k. if k < 2 then Inl (http_error 429) else Inr sample_entity) []"
  have h1: "safeParse (isEmail ?api) sample_raw = Some sample_user"
    by (rule sample_parse)
  have h2: "\<forall>k<2. \<exists>e. createUser_result ?api (calls is_CreateUser initial + k) = Inl e
              \<and> status e = JNum 429"
    by (simp add: sample_api_def http_error_def)
  have h3: "createUser_result ?api (calls is_CreateUser initial + 2) = Inr sample_entity"
    by (simp add: sample_api_def)
  have two: "replicate 2 x = [x, x]" for x :: "event list"
    by (simp add: numeral_2_eq_2)
  from rate_limit_retries [OF h1 h2 h3, of sample_cfg]
  have "processUserToClerk sample_cfg ?api sample_raw initial
      = Some (Returned \<lparr>migrated = 1, updated = 0, log = [],
          trace = [CreateUser sample_create, RateLimitCooldown (Some 10000),
                   CreateUser sample_create, RateLimitCooldown (Some 10000),
                   CreateUser sample_create]\<rparr>)"
    by (simp add: two sample_create_params initial_def sample_cfg_def)
  moreover have "createUser_result ?api (calls is_CreateUser initial + 0) = Inl (http_error 429)"
    and "createUser_result ?api (calls is_CreateUser initial + 1) = Inl (http_error 429)"
    and "status (http_error 429) = JNum 429"
    by (simp_all add: sample_api_def http_error_def)
  ultimately show ?thesis using h1 h3 by blast
qed

section \<open>Errors that are neither conflict nor rate limit\<close>

text \<open>
  C8. When the create attempt of a valid record is rejected with an error whose status is
  neither 422 nor 429, processing the record returns without an exception after that one
  create call (no retry), exactly one entry is appended to the audit log, made of the
  source identifier of the record and the error, and the created and updated counters
  are unchanged; the loop of \<open>main\<close> then goes on with the next record from that state.
\<close>

theorem other_error_logged_once:
  assumes "safeParse (isEmail api) userData = Some u"
    and "createUser_result api (calls is_CreateUser s) = Inl e"
    and "status e \<noteq> JNum 422" and "status e \<noteq> JNum 429"
  shows "processUserToClerk cfg api userData s =
      Some (Returned (s\<lparr>log := log s @ [\<lparr>ae_userId = JStr (userId u), ae_error = e\<rparr>],
                        trace := trace s @ [CreateUser (createUser_params u)]\<rparr>))
    \<and> main_loop cfg api (userData # rest) s =
        main_loop cfg api rest
          (s\<lparr>log := log s @ [\<lparr>ae_userId = JStr (userId u), ae_error = e\<rparr>],
             trace := trace s @ [Cooldown (DELAY cfg), CreateUser (createUser_params u)]\<rparr>)"
proof
  show "processUserToClerk cfg api userData s =
      Some (Returned (s\<lparr>log := log s @ [\<lparr>ae_userId = JStr (userId u), ae_error = e\<rparr>],
                        trace := trace s @ [CreateUser (createUser_params u)]\<rparr>))"
    by (rule process_other_error [OF assms])
  have "createUser_result api (calls is_CreateUser (cooldown cfg s)) = Inl e"
    using assms(2) by (simp add: cooldown_def)
  from process_other_error [OF assms(1) this assms(3,4)]
  show "main_loop cfg api (userData # rest) s =
        main_loop cfg api rest
          (s\<lparr>log := log s @ [\<lparr>ae_userId = JStr (userId u), ae_error = e\<rparr>],
             trace := trace s @ [Cooldown (DELAY cfg), CreateUser (createUser_params u)]\<rparr>)"
    by (simp add: cooldown_def emit_def)
qed

theorem other_error_logged_once_witness:
  "safeParse (isEmail (sample_api (\<lambda>k. Inl (http_error 500)) [])) sample_raw = Some sample_user
   \<and> createUser_result (sample_api (\<lambda>k. Inl (http_error 500)) []) (calls is_CreateUser initial)
        = Inl (http_error 500)
   \<and> status (http_error 500) \<noteq> JNum 422 \<and> status (http_error 500) \<noteq> JNum 429
   \<and> processUserToClerk sample_cfg (sample_api (\<lambda>k. Inl (http_error 500)) []) sample_raw initial
      = Some (Returned \<lparr>migrated = 0, updated = 0,
          log = [\<lparr>ae_userId = JStr (utf16 ''u1''), ae_error = http_error 500\<rparr>],
          trace = [CreateUser sample_create]\<rparr>)
   \<and> main_loop sample_cfg (sample_api (\<lambda>k. Inl (http_error 500)) []) [sample_raw] initial
      = Some (Returned \<lparr>migrated = 0, updated = 0,
          log = [\<lparr>ae_userId = JStr (utf16 ''u1''), ae_error = http_error 500\<rparr>],
          trace = [Cooldown (Some 1000), CreateUser sample_create]\<rparr>)"
proof -
  let ?api = "sample_api (\<lambda>k. Inl (http_error 500)) []"
  have h1: "safeParse (isEmail ?api) sample_raw = Some sample_user"
    by (rule sample_parse)
  have h2: "createUser_result ?api (calls is_CreateUser initial) = Inl (http_error 500)"
    by (simp add: sample_api_def)
  have h3: "status (http_error 500) \<noteq> JNum 422" and h4: "status (http_error 500) \<noteq> JNum 429"
    by (simp_all add: http_error_def)
  have u: "userId sample_user = utf16 ''u1''"
    by (simp add: sample_user_def)
  from other_error_logged_once [OF h1 h2 h3 h4, of sample_cfg "[]"] h1 h2 h3 h4
  show ?thesis
    by (simp add: sample_create_params initial_def sample_cfg_def u del: main_loop.simps(2))
qed

section \<open>Conflict without an existing entity\<close>

text \<open>
  C10. When the create attempt of a valid record is rejected with status 422 and the
  lookup by its email returns no entity, processing the record returns after the create
  call and the lookup: no update call is made, nothing is appended to the audit log, and
  neither the created nor the updated counter changes.
\<close>

theorem conflict_without_entity_skipped:
  assumes "safeParse (isEmail api) userData = Some u"
    and "createUser_result api (calls is_CreateUser s) = Inl e" and "status e = JNum 422"
    and "getUserList_result api (calls is_GetUserList s) = Inr []"
  shows "processUserToClerk cfg api userData s =
      Some (Returned (s\<lparr>trace := trace s @ [CreateUser (createUser_params u), GetUserList (email u)]\<rparr>))"
proof -
  have "getUserList_result api (calls is_GetUserList (emit (CreateUser (createUser_params u)) s)) = Inr []"
    using assms(4) by simp
  from updateUser_not_found [OF this, of u] show ?thesis
    by (simp add: process_conflict [OF assms(1-3)] emit_def)
qed

theorem conflict_without_entity_skipped_witness:
  "safeParse (isEmail (sample_api (\<lambda>k. Inl (http_error 422)) [])) sample_raw = Some sample_user
   \<and> createUser_result (sample_api (\<lambda>k. Inl (http_error 422)) []) (calls is_CreateUser initial)
        = Inl (http_error 422)
   \<and> status (http_error 422) = JNum 422
   \<and> getUserList_result (sample_api (\<lambda>k. Inl (http_error 422)) []) (calls is_GetUserList initial)
        = Inr []
   \<and> processUserToClerk sample_cfg (sample_api (\<lambda>k. Inl (http_error 422)) []) sample_raw initial
      = Some (Returned \<lparr>migrated = 0, updated = 0, log = [],
          trace = [CreateUser sample_create, GetUserList (utf16 ''a@x.com'')]\<rparr>)"
proof -
  let ?api = "sample_api (\<lambda>k. Inl (http_error 422)) []"
  have h1: "safeParse (isEmail ?api) sample_raw = Some sample_user"
    by (rule sample_parse)
  have h2: "createUser_result ?api (calls is_CreateUser initial) = Inl (http_error 422)"
    by (simp add: sample_api_def)
  have h3: "status (http_error 422) = JNum 422"
    by (simp add: http_error_def)
  have h4: "getUserList_result ?api (calls is_GetUserList initial) = Inr []"
    by (simp add: sample_api_def)
  have u: "email sample_user = utf16 ''a@x.com''"
    by (simp add: sample_user_def)
  from conflict_without_entity_skipped [OF h1 h2 h3 h4, of sample_cfg] h1 h2 h3 h4
  show ?thesis
    by (simp add: sample_create_params initial_def u)
qed

section \<open>The reconciler\<close>

text \<open>
  C5. The claim asks that no update call is issued when the entity found by the lookup
  agrees with the record on every compared field. \<open>updateUser\<close> compares with strict
  inequality, and a record without a last name holds \<^verbatim>\<open>undefined\<close> where the platform
  reports \<^verbatim>\<open>null\<close>. For the record named Ada and the entity with first name Ada and
  no last name, which agree on every compared field, the lookup is followed by an update
  call all the same, and the updated counter grows by one.
\<close>

theorem null_last_name_forces_update:
  "spec_agrees mononym_entity mononym_user
   \<and> safeParse (isEmail (sample_api (\<lambda>k. Inl (http_error 422)) [mononym_entity])) mononym_raw
       = Some mononym_user
   \<and> updateUser (sample_api (\<lambda>k. Inl (http_error 422)) [mononym_entity]) mononym_user initial
       = (Inr (Some sample_entity),
          \<lparr>migrated = 0, updated = 0, log = [],
           trace = [GetUserList (utf16 ''ada@x.com''),
                    UpdateUser (utf16 ''user_2'') mononym_update]\<rparr>)
   \<and> processUserToClerk sample_cfg (sample_api (\<lambda>k. Inl (http_error 422)) [mononym_entity])
        mononym_raw initial
       = Some (Returned \<lparr>migrated = 0, updated = 1, log = [],
           trace = [CreateUser mononym_create, GetUserList (utf16 ''ada@x.com''),
                    UpdateUser (utf16 ''user_2'') mononym_update]\<rparr>)"
proof -
  let ?api = "sample_api (\<lambda>k. Inl (http_error 422)) [mononym_entity]"
  have p: "safeParse (isEmail ?api) mononym_raw = Some mononym_user"
    by (rule mononym_parse)
  have c: "createUser_result ?api (calls is_CreateUser initial) = Inl (http_error 422)"
    by (simp add: sample_api_def)
  have st: "status (http_error 422) = JNum 422"
    by (simp add: http_error_def)
  have l: "getUserList_result ?api (calls is_GetUserList initial) = Inr [mononym_entity]"
    by (simp add: sample_api_def)
  have up: "updateUser_result ?api (calls is_UpdateUser initial) = Inr sample_entity"
    by (simp add: sample_api_def)
  have em: "email mononym_user = utf16 ''ada@x.com''"
    by (simp add: mononym_user_def)
  have id: "cu_id mononym_entity = utf16 ''user_2''"
    by (simp add: mononym_entity_def)
  have u: "updateUser ?api mononym_user initial
       = (Inr (Some sample_entity),
          \<lparr>migrated = 0, updated = 0, log = [],
           trace = [GetUserList (utf16 ''ada@x.com''),
                    UpdateUser (utf16 ''user_2'') mononym_update]\<rparr>)"
    using updateUser_diff [OF l mononym_differs up]
    by (simp add: mononym_update_params em id emit_def initial_def)
  have r: "processUserToClerk sample_cfg ?api mononym_raw initial
       = Some (Returned \<lparr>migrated = 0, updated = 1, log = [],
           trace = [CreateUser mononym_create, GetUserList (utf16 ''ada@x.com''),
                    UpdateUser (utf16 ''user_2'') mononym_update]\<rparr>)"
    using process_conflict_found [OF p c st l up, of sample_cfg]
    by (simp add: mononym_differs mononym_create_params mononym_update_params em id initial_def)
  from mononym_agrees p u r show ?thesis by blast
qed




section \<open>Pacing\<close>

text \<open>
  C9 (amended). In every run of the loop of \<open>main\<close> that ends, the pacing delay of the
  configured duration is imposed once per record processed, right before the first
  create attempt of the record; a create attempt made by a re-invocation after a
  rate-limit signal comes right after the rate-limit cooldown of the configured retry
  delay, with no pacing delay in between. So every create attempt follows a delay, and
  the number of pacing delays is the number of records, whatever the number of retries.
\<close>

theorem pacing_once_per_record:
  assumes "main_loop cfg api users s = Some res"
  shows "\<exists>t. trace (state_of res) = trace s @ t
     \<and> attempts_delayed (DELAY cfg) (RETRY_DELAY cfg) None False t
     \<and> length (filter is_Cooldown t) \<le> length users
     \<and> (\<forall>s'. res = Returned s' \<longrightarrow> length (filter is_Cooldown t) = length users)"
  using main_loop_shape [OF assms] by blast

theorem pacing_once_per_record_witness:
  "main_loop sample_cfg
      (sample_api (\<lambda>k. if k = 0 then Inl (http_error 429) else Inr sample_entity) [])
      [sample_raw] initial
   = Some (Returned \<lparr>migrated = 1, updated = 0, log = [],
        trace = [Cooldown (Some 1000), CreateUser sample_create,
                 RateLimitCooldown (Some 10000), CreateUser sample_create]\<rparr>)
   \<and> attempts_delayed (DELAY sample_cfg) (RETRY_DELAY sample_cfg) None False
        [Cooldown (Some 1000), CreateUser sample_create,
         RateLimitCooldown (Some 10000), CreateUser sample_create]
   \<and> length (filter is_Cooldown [Cooldown (Some 1000), CreateUser sample_create,
         RateLimitCooldown (Some 10000), CreateUser sample_create]) = length [sample_raw]"
  using pacing_once_per_record [OF sample_rate_limited_run] sample_rate_limited_run
  by (simp add: initial_def)

text \<open>
  C9 as stated fails for a record whose first create attempt is answered by a rate-limit
  signal: its second attempt comes right after the rate-limit cooldown, not after a pacing
  delay.
\<close>

theorem pacing_before_retry_counterexample:
  "main_loop sample_cfg
      (sample_api (\<lambda>k. if k = 0 then Inl (http_error 429) else Inr sample_entity) [])
      [sample_raw] initial
   = Some (Returned \<lparr>migrated = 1, updated = 0, log = [],
        trace = [Cooldown (Some 1000), CreateUser sample_create,
                 RateLimitCooldown (Some 10000), CreateUser sample_create]\<rparr>)
   \<and> \<not> attempts_paced (DELAY sample_cfg) None
        [Cooldown (Some 1000), CreateUser sample_create,
         RateLimitCooldown (Some 10000), CreateUser sample_create]"
  using sample_rate_limited_run by (simp add: sample_cfg_def)

section \<open>Paginated traversal\<close>

text \<open>
  C1 (amended). For every total count \<open>T\<close> and page size \<open>P > 0\<close>, on a service that
  reports \<open>T\<close> at every request and fills every page before the last, the user traversal
  of backup.ts and that of the user backup script both end, having issued exactly
  \<open>max 1 \<lceil>T / P\<rceil>\<close> list requests, at offsets \<open>0, P, 2 P, \<dots>\<close>, and having collected
  exactly \<open>T\<close> items. When \<open>T = 0\<close> that is one request, not none. The scripts run the
  loops with \<open>P = 500\<close>.
\<close>

theorem traversal_request_count:
  assumes "0 < P"
  shows "(serves api (request_at P) P T \<longrightarrow>
      (\<exists>items reqs. do_while_hasMore api P 0 [] [] = Some (Inr items, reqs)
         \<and> length reqs = max 1 (ceil_div T P)
         \<and> map offset reqs = map (\<lambda>k. Some (k * P)) [0..<max 1 (ceil_div T P)]
         \<and> length items = T))
    \<and> (serves api (request_at_old P) P T \<longrightarrow>
      (\<exists>items reqs. retrieve_users_limit api P = Some (Inr items, reqs)
         \<and> length reqs = max 1 (ceil_div T P)
         \<and> map offset (tl reqs) = map (\<lambda>k. Some (k * P)) [1..<max 1 (ceil_div T P)]
         \<and> length items = T))"
proof (intro conjI impI)
  let ?n = "max 1 (ceil_div T P)"
  assume sv: "serves api (request_at P) P T"
  have "0 < ?n" by simp
  from do_while_serves [OF assms sv this, of "[]" "[]"]
  obtain items where "do_while_hasMore api P 0 [] [] = Some (Inr items, map (request_at P) [0..<?n])"
    and "length items = T" by auto
  moreover have "map offset (map (request_at P) [0..<?n]) = map (\<lambda>k. Some (k * P)) [0..<?n]"
    by (simp add: request_at_def)
  ultimately show "\<exists>items reqs. do_while_hasMore api P 0 [] [] = Some (Inr items, reqs)
         \<and> length reqs = ?n
         \<and> map offset reqs = map (\<lambda>k. Some (k * P)) [0..<?n]
         \<and> length items = T"
    by (intro exI [of _ items] exI [of _ "map (request_at P) [0..<?n]"]) simp
next
  let ?n = "max 1 (ceil_div T P)"
  assume sv: "serves api (request_at_old P) P T"
  from retrieve_users_serves [OF assms sv]
  obtain items where "retrieve_users_limit api P = Some (Inr items, map (request_at_old P) [0..<?n])"
    and "length items = T" by auto
  moreover have "[0..<?n] = 0 # [1..<?n]"
    by (simp add: upt_conv_Cons)
  then have "map offset (tl (map (request_at_old P) [0..<?n])) = map (\<lambda>k. Some (k * P)) [1..<?n]"
    by (simp add: request_at_old_def)
  ultimately show "\<exists>items reqs. retrieve_users_limit api P = Some (Inr items, reqs)
         \<and> length reqs = ?n
         \<and> map offset (tl reqs) = map (\<lambda>k. Some (k * P)) [1..<?n]
         \<and> length items = T"
    by (intro exI [of _ items] exI [of _ "map (request_at_old P) [0..<?n]"]) simp
qed

theorem traversal_request_count_witness:
  "(0::nat) < 500
   \<and> serves (paged [0..<1001]) (request_at 500) 500 1001
   \<and> serves (paged [0..<1001]) (request_at_old 500) 500 1001
   \<and> max 1 (ceil_div 1001 500) = 3
   \<and> (\<exists>items reqs. backup_retrieve_users (paged [0..<1001]) = Some (Inr items, reqs)
        \<and> length reqs = 3
        \<and> map offset reqs = [Some 0, Some 500, Some 1000]
        \<and> length items = 1001)
   \<and> (\<exists>items reqs. user_backup_retrieve_users (paged [0..<1001]) = Some (Inr items, reqs)
        \<and> length reqs = 3
        \<and> map offset (tl reqs) = [Some 500, Some 1000]
        \<and> length items = 1001)"
proof -
  have p: "(0::nat) < 500" by simp
  have s1: "serves (paged [0..<1001]) (request_at 500) 500 1001"
    using paged_serves(1) [of "[0..<1001]" 500] by simp
  have s2: "serves (paged [0..<1001]) (request_at_old 500) 500 1001"
    using paged_serves(2) [of "[0..<1001]" 500] by simp
  have n: "max 1 (ceil_div 1001 500) = 3"
    by (simp add: ceil_div_def)
  have u: "[0..<3] = [0, 1, 2]" "[1..<3] = [1, 2]"
    by (simp_all add: upt_rec)
  from traversal_request_count [OF p, of "paged [0..<1001]" 1001] s1 s2
  have "(\<exists>items reqs. backup_retrieve_users (paged [0..<1001]) = Some (Inr items, reqs)
        \<and> length reqs = 3
        \<and> map offset reqs = [Some 0, Some 500, Some 1000]
        \<and> length items = 1001)
   \<and> (\<exists>items reqs. user_backup_retrieve_users (paged [0..<1001]) = Some (Inr items, reqs)
        \<and> length reqs = 3
        \<and> map offset (tl reqs) = [Some 500, Some 1000]
        \<and> length items = 1001)"
    unfolding n u
    by (simp add: backup_retrieve_users_def user_backup_retrieve_users_def)
  with p s1 s2 n show ?thesis by blast
qed

text \<open>
  C1 as stated fails on the empty collection: both traversals issue one request, and
  \<open>\<lceil>0 / 500\<rceil>\<close> is 0.
\<close>

theorem empty_collection_counterexample:
  "backup_retrieve_users (paged ([]::nat list)) = Some (Inr [], [\<lparr>offset = Some 0, limit = 500\<rparr>])
   \<and> user_backup_retrieve_users (paged ([]::nat list)) = Some (Inr [], [\<lparr>offset = None, limit = 500\<rparr>])
   \<and> length [\<lparr>offset = Some 0, limit = 500\<rparr>] \<noteq> ceil_div (length ([]::nat list)) 500
   \<and> length [\<lparr>offset = None, limit = 500\<rparr>] \<noteq> ceil_div (length ([]::nat list)) 500"
proof -
  have a: "backup_retrieve_users (paged ([]::nat list)) = Some (Inr [], [\<lparr>offset = Some 0, limit = 500\<rparr>])"
    unfolding backup_retrieve_users_def
    by (subst do_while_hasMore.simps) (simp add: paged_def)
  have b: "user_backup_retrieve_users (paged ([]::nat list)) = Some (Inr [], [\<lparr>offset = None, limit = 500\<rparr>])"
    by (simp add: user_backup_retrieve_users_def retrieve_users_limit_def paged_def while_done)
  have c: "ceil_div (length ([]::nat list)) 500 = 0"
    by (simp add: ceil_div_def)
  from a b c show ?thesis by simp
qed

text \<open>
  C4. The claim asks that a traversal goes on exactly while the total reported for its
  own collection exceeds the number of items collected. In the backup script kept in
  orgs\_get\_ids.ts the test in the body of the organization loop reads the total of the
  users instead. With 600 users and 1001 organizations the traversal stops after two
  pages with 1000 organizations, although 1001 exceeds 1000; with 700 users and 600
  organizations it goes on after all 600 organizations are collected, and never ends.
\<close>

theorem orgs_get_ids_wrong_total:
  "orgs_get_ids_main (paged [0..<600::nat]) (paged [0..<1001::nat])
     = Some (Inr ([0..<600], [0..<1000]))
   \<and> orgs_get_ids_main (paged [0..<700::nat]) (paged [0..<600::nat]) = None"
proof
  let ?r0 = "\<lparr>offset = None, limit = 500\<rparr>"
  let ?r1 = "\<lparr>offset = Some (0 + 500), limit = 500\<rparr>"
  have app: "[0..<500] @ [500..<m] = [0..<m]" if "500 \<le> m" for m :: nat
    using that upt_add_eq_append [of 0 500 "m - 500"] by simp
  have users: "while_hasMore (paged [0..<m]) 500 m 0 [0..<500] True [?r0]
      = Some (Inr [0..<m], [?r0, \<lparr>offset = Some 500, limit = 500\<rparr>])"
    if "500 < m" "m \<le> 1000" for m :: nat
  proof -
    have pg: "paged [0..<m] (length [?r0]) ?r1 = Inr \<lparr>data = [500..<m], totalCount = m\<rparr>"
      using that by (simp add: paged_def del: upt_rec_numeral)
    have "while_hasMore (paged [0..<m]) 500 m 0 [0..<500] True [?r0]
        = while_hasMore (paged [0..<m]) 500 m (0 + 500) ([0..<500] @ [500..<m])
            (m > length ([0..<500] @ [500..<m])) ([?r0] @ [?r1])"
      using while_step [of "paged [0..<m]" "[?r0]" 0 500
          "\<lparr>data = [500..<m], totalCount = m\<rparr>" m "[0..<500]"] pg
      by simp
    also have "\<dots> = Some (Inr [0..<m], [?r0, \<lparr>offset = Some 500, limit = 500\<rparr>])"
      using that by (simp add: app while_done del: upt_rec_numeral)
    finally show ?thesis .
  qed
  have pg: "paged [0..<1001] (length [?r0]) ?r1 = Inr \<lparr>data = [500..<1000], totalCount = 1001\<rparr>"
    by (simp add: paged_def del: upt_rec_numeral)
  have "while_hasMore (paged [0..<1001]) 500 600 0 [0..<500] True [?r0]
      = while_hasMore (paged [0..<1001]) 500 600 (0 + 500) ([0..<500] @ [500..<1000])
          (600 > length ([0..<500] @ [500..<1000])) ([?r0] @ [?r1])"
    using while_step [of "paged [0..<1001]" "[?r0]" 0 500
        "\<lparr>data = [500..<1000], totalCount = 1001\<rparr>" 600 "[0..<500]"] pg
    by simp
  also have "\<dots> = Some (Inr [0..<1000], [?r0, \<lparr>offset = Some 500, limit = 500\<rparr>])"
    by (simp add: app while_done del: upt_rec_numeral)
  finally have orgs: "orgs_get_ids_retrieve_orgs (paged [0..<1001]) 500 600
      = Some (Inr [0..<1000], [?r0, \<lparr>offset = Some 500, limit = 500\<rparr>])"
    by (simp add: orgs_get_ids_retrieve_orgs_def paged_def Let_def del: upt_rec_numeral)
  show "orgs_get_ids_main (paged [0..<600::nat]) (paged [0..<1001::nat])
     = Some (Inr ([0..<600], [0..<1000]))"
    using users [of 600] orgs
    by (simp add: orgs_get_ids_main_def paged_def Let_def del: upt_rec_numeral)
  have "while_hasMore (paged [0..<600]) 500 700 0 [0..<500] True [?r0] = None"
    by (rule while_never_ends) simp_all
  then have orgs': "orgs_get_ids_retrieve_orgs (paged [0..<600]) 500 700 = None"
    by (simp add: orgs_get_ids_retrieve_orgs_def paged_def Let_def del: upt_rec_numeral)
  show "orgs_get_ids_main (paged [0..<700::nat]) (paged [0..<600::nat]) = None"
    using users [of 700] orgs'
    by (simp add: orgs_get_ids_main_def paged_def Let_def del: upt_rec_numeral)
qed

end
